theory Spec2Isabelle
  imports Complex_Main
begin

section \<open>Data model\<close>

text \<open>
  \<^verbatim>\<open>src/agents/types.ts\<close>:
  \<^verbatim>\<open>export type DepartmentIntent = "hr" | "tech" | "finance" | "unknown";\<close>
\<close>

datatype DepartmentIntent = Hr | Tech | Finance | Unknown

text \<open>The string a \<^typ>\<open>DepartmentIntent\<close> is at run time (it is used as a label
  in the history when no agent is bound to the intent).\<close>

fun intent_string :: "DepartmentIntent \<Rightarrow> string" where
  "intent_string Hr = ''hr''"
| "intent_string Tech = ''tech''"
| "intent_string Finance = ''finance''"
| "intent_string Unknown = ''unknown''"

text \<open>Whatever a rejected promise carries.\<close>

datatype error = Error string

text \<open>
  \<^verbatim>\<open>z.infer<typeof schema>\<close> of the orchestrator:
  \<^verbatim>\<open>{ intents: DepartmentIntent[] (1..3), confidence: number, reasoning: string }\<close>.
\<close>

record OrchestratorResult =
  intents :: "DepartmentIntent list"
  confidence :: real
  reasoning :: string

text \<open>The \<^verbatim>\<open>handoff\<close> object of a \<^verbatim>\<open>DomainAgentResult\<close>:
  \<^verbatim>\<open>{ intent: DepartmentIntent; reason: string; context?: string }\<close>.\<close>

record Handoff =
  h_intent :: DepartmentIntent
  h_reason :: string
  h_context :: "string option"

record DomainAgentResult =
  res_text :: string
  sources :: "string list"
  handoff :: "Handoff option"

record AgentTurn =
  intentTried :: DepartmentIntent
  response :: DomainAgentResult

record IntentQueueItem =
  item_intent :: DepartmentIntent
  item_note :: "string option"

record RouteResult =
  classification :: OrchestratorResult
  turns :: "AgentTurn list"
  unresolvedIntents :: "DepartmentIntent list"

subsection \<open>Messages, documents and the parsed answer of a domain agent\<close>

text \<open>The \<^verbatim>\<open>content\<close> of a \<^verbatim>\<open>BaseMessage\<close>: a string, an array of
  chunks (a string, an object with a string \<^verbatim>\<open>text\<close>, or something else), or
  anything else.\<close>

datatype ContentChunk = ChunkString string | ChunkText string | ChunkOther

datatype MessageContent = ContentString string | ContentArray "ContentChunk list" | ContentOther

record BaseMessage =
  content :: MessageContent

text \<open>\<^verbatim>\<open>doc.metadata?.source\<close>: a string, a value of another type (kept with the
  text a template literal renders it as), or missing.\<close>

datatype MetadataSource = SourceString string | SourceOther string | SourceMissing

record Document =
  pageContent :: string
  metadata_source :: MetadataSource

text \<open>The \<^verbatim>\<open>follow_up\<close> object the zod schema of the domain agent admits.\<close>

record FollowUp =
  fu_intent :: DepartmentIntent
  fu_reason :: string
  context_package :: "string option"

record ParsedAnswer =
  answer :: string
  citations :: "string list"
  follow_up :: "FollowUp option"

text \<open>A \<^verbatim>\<open>StructuredOutputParser\<close> is library code: the model keeps its two methods
  as fields.\<close>

record 'a StructuredOutputParser =
  getFormatInstructions :: string
  parse :: "string \<Rightarrow> error + 'a"

record DomainAgentOptions =
  opt_intent :: DepartmentIntent
  opt_name :: string
  styleGuide :: string

text \<open>
  The fields of a \<^verbatim>\<open>DomainRagAgent\<close>. The language model, the retriever and the
  prompt template are external: a call to the first two is a function of the world
  \<^typ>\<open>'w\<close> that returns the new world with its result, \<^verbatim>\<open>prompt.formatMessages\<close>
  a function of the template's variables. \<^typ>\<open>'c\<close> is the \<^verbatim>\<open>RunnableConfig\<close>
  handed through.
\<close>

record ('c, 'w) DomainRagAgent =
  llm :: "BaseMessage list \<Rightarrow> 'c \<Rightarrow> 'w \<Rightarrow> (error + BaseMessage) \<times> 'w"
  retriever :: "string \<Rightarrow> 'c \<Rightarrow> 'w \<Rightarrow> (error + Document list) \<times> 'w"
  options :: DomainAgentOptions
  prompt :: "(string \<times> string) list \<Rightarrow> error + BaseMessage list"
  parser :: "ParsedAnswer StructuredOutputParser"

record ('c, 'w) OrchestratorAgent =
  orch_llm :: "BaseMessage list \<Rightarrow> 'c \<Rightarrow> 'w \<Rightarrow> (error + BaseMessage) \<times> 'w"
  orch_prompt :: "(string \<times> string) list \<Rightarrow> error + BaseMessage list"
  orch_parser :: "OrchestratorResult StructuredOutputParser"

text \<open>The two private fields of \<^verbatim>\<open>MultiAgentRouter\<close>. The source's record of agents
  has the keys \<^verbatim>\<open>hr\<close>, \<^verbatim>\<open>tech\<close> and \<^verbatim>\<open>finance\<close>; the lookup
  \<^verbatim>\<open>this.agents[intent]\<close> is a partial map, as the source's test \<^verbatim>\<open>if (!agent)\<close>
  has it.\<close>

record ('c, 'w) MultiAgentRouter =
  orchestrator :: "('c, 'w) OrchestratorAgent"
  agents :: "DepartmentIntent \<rightharpoonup> ('c, 'w) DomainRagAgent"

text \<open>The local variables of \<^verbatim>\<open>route\<close> that the dispatch loop updates.\<close>

record LoopState =
  l_queue :: "IntentQueueItem list"
  l_visited :: "DepartmentIntent set"
  l_turns :: "AgentTurn list"

section \<open>Strings\<close>

abbreviation LF :: string where
  "LF \<equiv> [CHR 0x0A]"

text \<open>\<^verbatim>\<open>Array.prototype.join\<close> on strings.\<close>

fun join :: "string \<Rightarrow> string list \<Rightarrow> string" where
  "join sep [] = []"
| "join sep [x] = x"
| "join sep (x # y # ys) = x @ sep @ join sep (y # ys)"

text \<open>
  \<^verbatim>\<open>String.prototype.trim\<close> removes the white space and the line terminators of
  ECMAScript from both ends. A \<^typ>\<open>string\<close> is a list of bytes, the text in UTF-8, so
  each of these 25 code points is the byte sequence that encodes it: U+0009 to U+000D,
  U+0020, U+00A0, U+1680, U+2000 to U+200A, U+2028, U+2029, U+202F, U+205F, U+3000 and
  U+FEFF.
\<close>

definition white_space :: "string list" where
  "white_space =
     [[CHR 0x09], [CHR 0x0A], [CHR 0x0B], [CHR 0x0C], [CHR 0x0D], [CHR 0x20],
      [CHR 0xC2, CHR 0xA0],
      [CHR 0xE1, CHR 0x9A, CHR 0x80],
      [CHR 0xE2, CHR 0x80, CHR 0x80], [CHR 0xE2, CHR 0x80, CHR 0x81],
      [CHR 0xE2, CHR 0x80, CHR 0x82], [CHR 0xE2, CHR 0x80, CHR 0x83],
      [CHR 0xE2, CHR 0x80, CHR 0x84], [CHR 0xE2, CHR 0x80, CHR 0x85],
      [CHR 0xE2, CHR 0x80, CHR 0x86], [CHR 0xE2, CHR 0x80, CHR 0x87],
      [CHR 0xE2, CHR 0x80, CHR 0x88], [CHR 0xE2, CHR 0x80, CHR 0x89],
      [CHR 0xE2, CHR 0x80, CHR 0x8A],
      [CHR 0xE2, CHR 0x80, CHR 0xA8], [CHR 0xE2, CHR 0x80, CHR 0xA9],
      [CHR 0xE2, CHR 0x80, CHR 0xAF],
      [CHR 0xE2, CHR 0x81, CHR 0x9F],
      [CHR 0xE3, CHR 0x80, CHR 0x80],
      [CHR 0xEF, CHR 0xBB, CHR 0xBF]]"

text \<open>Removes from the front of \<open>s\<close> every leading occurrence of one of the byte
  sequences \<open>ps\<close>.\<close>

function strip_leading :: "string list \<Rightarrow> string \<Rightarrow> string" where
  "strip_leading ps s =
     (case find (\<lambda>p. p \<noteq> [] \<and> take (length p) s = p) ps of
        None \<Rightarrow> s
      | Some p \<Rightarrow> strip_leading ps (drop (length p) s))"
  by pat_completeness auto
termination
proof (relation "measure (\<lambda>(ps, s). length s)")
  show "wf (measure (\<lambda>(ps, s). length s))"
    by simp
next
  fix ps :: "string list" and s p :: string
  assume "find (\<lambda>p. p \<noteq> [] \<and> take (length p) s = p) ps = Some p"
  then have p: "p \<noteq> []" and t: "take (length p) s = p"
    by (auto simp: find_Some_iff)
  have "length (take (length p) s) \<le> length s"
    by simp
  with t have le: "length p \<le> length s"
    by simp
  from p obtain x xs where "p = x # xs"
    by (cases p) auto
  with le have "length s - length p < length s"
    by simp
  then show "((ps, drop (length p) s), (ps, s)) \<in> measure (\<lambda>(ps, s). length s)"
    by simp
qed

declare strip_leading.simps [simp del]

definition trim :: "string \<Rightarrow> string" where
  "trim s = rev (strip_leading (map rev white_space) (rev (strip_leading white_space s)))"

text \<open>The decimal digits of an array index, as a template literal prints it.\<close>

fun show_nat :: "nat \<Rightarrow> string" where
  "show_nat n =
     (if n < 10 then [char_of (48 + n)]
      else show_nat (n div 10) @ [char_of (48 + n mod 10)])"

section \<open>The orchestrator\<close>

text \<open>\<^verbatim>\<open>OrchestratorAgent.extractText\<close> and \<^verbatim>\<open>DomainRagAgent.extractAnswer\<close>
  have the same body.\<close>

fun chunk_text :: "ContentChunk \<Rightarrow> string" where
  "chunk_text (ChunkString s) = s"
| "chunk_text (ChunkText s) = s"
| "chunk_text ChunkOther = []"

fun extractText :: "BaseMessage \<Rightarrow> string" where
  "extractText message =
     (case content message of
        ContentString s \<Rightarrow> s
      | ContentArray chunks \<Rightarrow> trim (join [] (map chunk_text chunks))
      | ContentOther \<Rightarrow> [])"

definition classify ::
  "('c, 'w) OrchestratorAgent \<Rightarrow> string \<Rightarrow> 'c \<Rightarrow> 'w \<Rightarrow> (error + OrchestratorResult) \<times> 'w" where
  "classify orch question config w =
     (case orch_prompt orch
             [(''question'', question),
              (''format_instructions'', getFormatInstructions (orch_parser orch))] of
        Inl e \<Rightarrow> (Inl e, w)
      | Inr messages \<Rightarrow>
          (case orch_llm orch messages config w of
             (Inl e, w1) \<Rightarrow> (Inl e, w1)
           | (Inr resp, w1) \<Rightarrow> (parse (orch_parser orch) (extractText resp), w1)))"

text \<open>The loop of \<^verbatim>\<open>resolveOrderedIntents\<close> over \<^verbatim>\<open>result.intents\<close>, with the
  array \<^verbatim>\<open>unique\<close> as accumulator.\<close>

fun resolve_loop :: "DepartmentIntent list \<Rightarrow> DepartmentIntent list \<Rightarrow> DepartmentIntent list" where
  "resolve_loop unique [] = unique"
| "resolve_loop unique (candidate # rest) =
     (let normalized =
            (if candidate = Hr \<or> candidate = Tech \<or> candidate = Finance then candidate
             else Unknown)
      in if normalized \<notin> set unique then resolve_loop (unique @ [normalized]) rest
         else resolve_loop unique rest)"

definition resolveOrderedIntents :: "OrchestratorResult \<Rightarrow> DepartmentIntent list" where
  "resolveOrderedIntents result = resolve_loop [] (intents result)"

section \<open>The domain agent\<close>

definition extractAnswer :: "BaseMessage \<Rightarrow> string" where
  "extractAnswer message = extractText message"

definition formatContext :: "Document list \<Rightarrow> string" where
  "formatContext docs =
     (if docs = [] then ''No matching documents.''
      else join (LF @ LF @ ''---'' @ LF @ LF)
             (map (\<lambda>(idx, doc).
                    (let sourceLabel =
                           (case metadata_source doc of
                              SourceString s \<Rightarrow> s
                            | SourceOther s \<Rightarrow> s
                            | SourceMissing \<Rightarrow> ''chunk-'' @ show_nat idx)
                     in ''Source: '' @ sourceLabel @ LF @ pageContent doc))
                (enumerate 0 docs)))"

text \<open>\<^verbatim>\<open>DomainRagAgent.invoke(question, history = "No prior agent responses.", config)\<close>:
  a history of \<open>None\<close> is the argument left out.\<close>

definition invoke ::
  "('c, 'w) DomainRagAgent \<Rightarrow> string \<Rightarrow> string option \<Rightarrow> 'c \<Rightarrow> 'w
     \<Rightarrow> (error + DomainAgentResult) \<times> 'w" where
  "invoke agent question history_arg config w =
     (let history = (case history_arg of None \<Rightarrow> ''No prior agent responses.'' | Some h \<Rightarrow> h)
      in case retriever agent question config w of
           (Inl e, w1) \<Rightarrow> (Inl e, w1)
         | (Inr sourceDocs, w1) \<Rightarrow>
             (let context = formatContext sourceDocs
              in case prompt agent
                        [(''context'', context), (''question'', question),
                         (''history'', history),
                         (''format_instructions'', getFormatInstructions (parser agent))] of
                   Inl e \<Rightarrow> (Inl e, w1)
                 | Inr messages \<Rightarrow>
                     (case llm agent messages config w1 of
                        (Inl e, w2) \<Rightarrow> (Inl e, w2)
                      | (Inr llmResponse, w2) \<Rightarrow>
                          (case parse (parser agent) (extractAnswer llmResponse) of
                             Inl e \<Rightarrow> (Inl e, w2)
                           | Inr parsed \<Rightarrow>
                               (Inr \<lparr>res_text = answer parsed,
                                     sources =
                                       (if length (citations parsed) > 0 then citations parsed
                                        else map (\<lambda>(idx, doc).
                                                   (case metadata_source doc of
                                                      SourceString s \<Rightarrow> s
                                                    | _ \<Rightarrow> ''chunk-'' @ show_nat idx))
                                               (enumerate 0 sourceDocs)),
                                     handoff =
                                       (case follow_up parsed of
                                          None \<Rightarrow> None
                                        | Some f \<Rightarrow>
                                            if fu_intent f \<noteq> Unknown
                                            then Some \<lparr>h_intent = fu_intent f,
                                                       h_reason = fu_reason f,
                                                       h_context = context_package f\<rparr>
                                            else None)\<rparr>,
                                w2)))))"

section \<open>The router\<close>

text \<open>The \<^verbatim>\<open>history\<close> string of one iteration: a label and the answer of every turn
  so far, joined by blank lines.\<close>

definition history_of ::
  "(DepartmentIntent \<rightharpoonup> ('c, 'w) DomainRagAgent) \<Rightarrow> AgentTurn list \<Rightarrow> string" where
  "history_of ags ts =
     join (LF @ LF)
       (map (\<lambda>turn.
              (let label =
                     (if intentTried turn = Unknown then ''Unknown intent''
                      else (case ags (intentTried turn) of
                              Some a \<Rightarrow> opt_name (options a)
                            | None \<Rightarrow> intent_string (intentTried turn)))
               in label @ '':'' @ LF @ res_text (response turn)))
          ts)"

text \<open>\<^verbatim>\<open>note ? `${question}\n\nFollow-up directive: ${note}` : question\<close>: a note that
  is missing or the empty string is falsy.\<close>

definition taskDirective_of :: "string \<Rightarrow> string option \<Rightarrow> string" where
  "taskDirective_of question note_opt =
     (case note_opt of
        None \<Rightarrow> question
      | Some n \<Rightarrow> if n \<noteq> [] then question @ LF @ LF @ ''Follow-up directive: '' @ n else question)"

text \<open>\<^verbatim>\<open>history || 'No prior agent responses.'\<close>\<close>

definition history_arg_of :: "string \<Rightarrow> string" where
  "history_arg_of history = (if history \<noteq> [] then history else ''No prior agent responses.'')"

text \<open>The condition of the \<^verbatim>\<open>while\<close> loop.\<close>

definition loop_cond :: "LoopState \<Rightarrow> bool" where
  "loop_cond s = (l_queue s \<noteq> [] \<and> length (l_turns s) < 5)"

text \<open>
  One iteration of the loop's body (lines 205 to 237). \<^verbatim>\<open>continue\<close> returns the
  state with the head of the queue removed; a rejected \<^verbatim>\<open>agent.invoke\<close> leaves the
  function with the error. On an empty queue \<^verbatim>\<open>queue.shift()\<close> is
  \<^verbatim>\<open>undefined\<close> and destructuring it throws; the loop never runs its body there.
\<close>

definition loop_body ::
  "(DepartmentIntent \<rightharpoonup> ('c, 'w) DomainRagAgent) \<Rightarrow> string \<Rightarrow> 'c \<Rightarrow> LoopState \<Rightarrow> 'w
     \<Rightarrow> (error + LoopState) \<times> 'w" where
  "loop_body ags question config s w =
     (case l_queue s of
        [] \<Rightarrow> (Inl (Error ''TypeError: cannot destructure undefined''), w)
      | item # rest \<Rightarrow>
          (let intent = item_intent item; note_opt = item_note item
           in if intent = Unknown \<or> intent \<in> l_visited s
              then (Inr (s\<lparr>l_queue := rest\<rparr>), w)
              else (case ags intent of
                      None \<Rightarrow> (Inr (s\<lparr>l_queue := rest\<rparr>), w)
                    | Some agent \<Rightarrow>
                        (let history = history_of ags (l_turns s);
                             taskDirective = taskDirective_of question note_opt
                         in case invoke agent taskDirective (Some (history_arg_of history))
                                   config w of
                              (Inl e, w1) \<Rightarrow> (Inl e, w1)
                            | (Inr resp, w1) \<Rightarrow>
                                (let turns1 = l_turns s @ [\<lparr>intentTried = intent, response = resp\<rparr>];
                                     visited1 = insert intent (l_visited s);
                                     queue1 =
                                       (case handoff resp of
                                          None \<Rightarrow> rest
                                        | Some h \<Rightarrow>
                                            if h_intent h \<notin> visited1
                                            then rest @
                                                   [\<lparr>item_intent = h_intent h,
                                                     item_note =
                                                       Some (case h_context h of
                                                               Some c \<Rightarrow> c
                                                             | None \<Rightarrow> h_reason h)\<rparr>]
                                            else rest)
                                 in (Inr \<lparr>l_queue = queue1, l_visited = visited1,
                                          l_turns = turns1\<rparr>, w1))))))"

text \<open>The measure that shows the loop ends: a dispatch adds a turn (and keeps the queue
  no longer than it was), a skipped item shortens the queue.\<close>

definition loop_measure :: "LoopState \<Rightarrow> nat" where
  "loop_measure s = 2 * (5 - length (l_turns s)) + length (l_queue s)"

text \<open>\<^verbatim>\<open>while (queue.length && turns.length < 5) { ... }\<close>\<close>

function route_loop ::
  "(DepartmentIntent \<rightharpoonup> ('c, 'w) DomainRagAgent) \<Rightarrow> string \<Rightarrow> 'c \<Rightarrow> LoopState \<Rightarrow> 'w
     \<Rightarrow> (error + LoopState) \<times> 'w" where
  "route_loop ags question config s w =
     (if loop_cond s
      then (case loop_body ags question config s w of
              (Inl e, w1) \<Rightarrow> (Inl e, w1)
            | (Inr s1, w1) \<Rightarrow> route_loop ags question config s1 w1)
      else (Inr s, w))"
  by pat_completeness auto
termination
  apply (relation "measure (\<lambda>(ags, question, config, s, w). loop_measure s)")
   apply simp
  apply (auto simp: loop_cond_def neq_Nil_conv)
  apply (auto simp: loop_body_def loop_measure_def Let_def
              split: if_splits option.splits prod.splits sum.splits)
  done

definition initial_state :: "OrchestratorResult \<Rightarrow> LoopState" where
  "initial_state cl =
     \<lparr>l_queue = map (\<lambda>intent. \<lparr>item_intent = intent, item_note = None\<rparr>)
                  (resolveOrderedIntents cl),
      l_visited = {},
      l_turns = []\<rparr>"

text \<open>\<^verbatim>\<open>MultiAgentRouter.route(question, config)\<close>\<close>

definition route ::
  "('c, 'w) MultiAgentRouter \<Rightarrow> string \<Rightarrow> 'c \<Rightarrow> 'w \<Rightarrow> (error + RouteResult) \<times> 'w" where
  "route router question config w =
     (case classify (orchestrator router) question config w of
        (Inl e, w1) \<Rightarrow> (Inl e, w1)
      | (Inr cl, w1) \<Rightarrow>
          (case route_loop (agents router) question config (initial_state cl) w1 of
             (Inl e, w2) \<Rightarrow> (Inl e, w2)
           | (Inr s, w2) \<Rightarrow>
               (Inr \<lparr>classification = cl,
                     turns = l_turns s,
                     unresolvedIntents =
                       filter (\<lambda>intent. intent \<notin> l_visited s) (map item_intent (l_queue s))\<rparr>,
                w2)))"

declare route_loop.simps [simp del]

section \<open>The router at run time\<close>

text \<open>
  The annotations of TypeScript are gone when the program runs: an intent is a string,
  \<^verbatim>\<open>this.agents[intent]\<close> looks that string up in an object, and an agent is
  whatever object has the \<^verbatim>\<open>name\<close> and the \<^verbatim>\<open>invoke\<close> the router uses. A
  caller that chains more departments than \<^verbatim>\<open>DepartmentIntent\<close> declares runs
  the code in this way. The definitions of this section are the same source lines as above,
  with an intent a \<^typ>\<open>string\<close> and \<open>''unknown''\<close> the value the code compares with;
  the classifier and the agents are given by their methods.
\<close>

record RtHandoff =
  rt_h_intent :: string
  rt_h_reason :: string
  rt_h_context :: "string option"

record RtAgentResult =
  rt_text :: string
  rt_sources :: "string list"
  rt_handoff :: "RtHandoff option"

record RtAgentTurn =
  rt_intentTried :: string
  rt_response :: RtAgentResult

record RtQueueItem =
  rt_item_intent :: string
  rt_item_note :: "string option"

record RtClassification =
  rt_intents :: "string list"
  rt_confidence :: real
  rt_reasoning :: string

record RtRouteResult =
  rt_classification :: RtClassification
  rt_turns :: "RtAgentTurn list"
  rt_unresolvedIntents :: "string list"

record ('c, 'w) RtAgent =
  rt_name :: string
  rt_invoke :: "string \<Rightarrow> string \<Rightarrow> 'c \<Rightarrow> 'w \<Rightarrow> (error + RtAgentResult) \<times> 'w"

record ('c, 'w) RtRouter =
  rt_classify :: "string \<Rightarrow> 'c \<Rightarrow> 'w \<Rightarrow> (error + RtClassification) \<times> 'w"
  rt_agents :: "string \<rightharpoonup> ('c, 'w) RtAgent"

record RtLoopState =
  rt_queue :: "RtQueueItem list"
  rt_visited :: "string set"
  rt_turns_so_far :: "RtAgentTurn list"

fun rt_resolve_loop :: "string list \<Rightarrow> string list \<Rightarrow> string list" where
  "rt_resolve_loop unique [] = unique"
| "rt_resolve_loop unique (candidate # rest) =
     (let normalized =
            (if candidate = ''hr'' \<or> candidate = ''tech'' \<or> candidate = ''finance''
             then candidate else ''unknown'')
      in if normalized \<notin> set unique then rt_resolve_loop (unique @ [normalized]) rest
         else rt_resolve_loop unique rest)"

definition rt_resolveOrderedIntents :: "RtClassification \<Rightarrow> string list" where
  "rt_resolveOrderedIntents result = rt_resolve_loop [] (rt_intents result)"

definition rt_history_of :: "(string \<rightharpoonup> ('c, 'w) RtAgent) \<Rightarrow> RtAgentTurn list \<Rightarrow> string" where
  "rt_history_of ags ts =
     join (LF @ LF)
       (map (\<lambda>turn.
              (let label =
                     (if rt_intentTried turn = ''unknown'' then ''Unknown intent''
                      else (case ags (rt_intentTried turn) of
                              Some a \<Rightarrow> rt_name a
                            | None \<Rightarrow> rt_intentTried turn))
               in label @ '':'' @ LF @ rt_text (rt_response turn)))
          ts)"

definition rt_loop_cond :: "RtLoopState \<Rightarrow> bool" where
  "rt_loop_cond s = (rt_queue s \<noteq> [] \<and> length (rt_turns_so_far s) < 5)"

definition rt_loop_body ::
  "(string \<rightharpoonup> ('c, 'w) RtAgent) \<Rightarrow> string \<Rightarrow> 'c \<Rightarrow> RtLoopState \<Rightarrow> 'w
     \<Rightarrow> (error + RtLoopState) \<times> 'w" where
  "rt_loop_body ags question config s w =
     (case rt_queue s of
        [] \<Rightarrow> (Inl (Error ''TypeError: cannot destructure undefined''), w)
      | item # rest \<Rightarrow>
          (let intent = rt_item_intent item; note_opt = rt_item_note item
           in if intent = ''unknown'' \<or> intent \<in> rt_visited s
              then (Inr (s\<lparr>rt_queue := rest\<rparr>), w)
              else (case ags intent of
                      None \<Rightarrow> (Inr (s\<lparr>rt_queue := rest\<rparr>), w)
                    | Some agent \<Rightarrow>
                        (let history = rt_history_of ags (rt_turns_so_far s);
                             taskDirective = taskDirective_of question note_opt
                         in case rt_invoke agent taskDirective (history_arg_of history)
                                   config w of
                              (Inl e, w1) \<Rightarrow> (Inl e, w1)
                            | (Inr resp, w1) \<Rightarrow>
                                (let turns1 = rt_turns_so_far s @
                                       [\<lparr>rt_intentTried = intent, rt_response = resp\<rparr>];
                                     visited1 = insert intent (rt_visited s);
                                     queue1 =
                                       (case rt_handoff resp of
                                          None \<Rightarrow> rest
                                        | Some h \<Rightarrow>
                                            if rt_h_intent h \<notin> visited1
                                            then rest @
                                                   [\<lparr>rt_item_intent = rt_h_intent h,
                                                     rt_item_note =
                                                       Some (case rt_h_context h of
                                                               Some c \<Rightarrow> c
                                                             | None \<Rightarrow> rt_h_reason h)\<rparr>]
                                            else rest)
                                 in (Inr \<lparr>rt_queue = queue1, rt_visited = visited1,
                                          rt_turns_so_far = turns1\<rparr>, w1))))))"

definition rt_loop_measure :: "RtLoopState \<Rightarrow> nat" where
  "rt_loop_measure s = 2 * (5 - length (rt_turns_so_far s)) + length (rt_queue s)"

function rt_route_loop ::
  "(string \<rightharpoonup> ('c, 'w) RtAgent) \<Rightarrow> string \<Rightarrow> 'c \<Rightarrow> RtLoopState \<Rightarrow> 'w
     \<Rightarrow> (error + RtLoopState) \<times> 'w" where
  "rt_route_loop ags question config s w =
     (if rt_loop_cond s
      then (case rt_loop_body ags question config s w of
              (Inl e, w1) \<Rightarrow> (Inl e, w1)
            | (Inr s1, w1) \<Rightarrow> rt_route_loop ags question config s1 w1)
      else (Inr s, w))"
  by pat_completeness auto
termination
  apply (relation "measure (\<lambda>(ags, question, config, s, w). rt_loop_measure s)")
   apply simp
  apply (auto simp: rt_loop_cond_def neq_Nil_conv)
  apply (auto simp: rt_loop_body_def rt_loop_measure_def Let_def
              split: if_splits option.splits prod.splits sum.splits)
  done

declare rt_route_loop.simps [simp del]

definition rt_initial_state :: "RtClassification \<Rightarrow> RtLoopState" where
  "rt_initial_state cl =
     \<lparr>rt_queue = map (\<lambda>intent. \<lparr>rt_item_intent = intent, rt_item_note = None\<rparr>)
                   (rt_resolveOrderedIntents cl),
      rt_visited = {},
      rt_turns_so_far = []\<rparr>"

definition rt_route ::
  "('c, 'w) RtRouter \<Rightarrow> string \<Rightarrow> 'c \<Rightarrow> 'w \<Rightarrow> (error + RtRouteResult) \<times> 'w" where
  "rt_route router question config w =
     (case rt_classify router question config w of
        (Inl e, w1) \<Rightarrow> (Inl e, w1)
      | (Inr cl, w1) \<Rightarrow>
          (case rt_route_loop (rt_agents router) question config (rt_initial_state cl) w1 of
             (Inl e, w2) \<Rightarrow> (Inl e, w2)
           | (Inr s, w2) \<Rightarrow>
               (Inr \<lparr>rt_classification = cl,
                     rt_turns = rt_turns_so_far s,
                     rt_unresolvedIntents =
                       filter (\<lambda>intent. intent \<notin> rt_visited s)
                         (map rt_item_intent (rt_queue s))\<rparr>,
                w2)))"

subsection \<open>A typed router, seen at run time\<close>

text \<open>The values of the typed model as they are at run time: an intent is its string,
  the agent map is the object with the keys \<open>hr\<close>, \<open>tech\<close> and \<open>finance\<close>, and an
  agent's \<^verbatim>\<open>invoke\<close> is \<^verbatim>\<open>DomainRagAgent.invoke\<close>.\<close>

definition rt_of_handoff :: "Handoff \<Rightarrow> RtHandoff" where
  "rt_of_handoff h =
     \<lparr>rt_h_intent = intent_string (h_intent h), rt_h_reason = h_reason h,
      rt_h_context = h_context h\<rparr>"

definition rt_of_result :: "DomainAgentResult \<Rightarrow> RtAgentResult" where
  "rt_of_result r =
     \<lparr>rt_text = res_text r, rt_sources = sources r,
      rt_handoff = map_option rt_of_handoff (handoff r)\<rparr>"

definition rt_of_turn :: "AgentTurn \<Rightarrow> RtAgentTurn" where
  "rt_of_turn t =
     \<lparr>rt_intentTried = intent_string (intentTried t), rt_response = rt_of_result (response t)\<rparr>"

definition rt_of_item :: "IntentQueueItem \<Rightarrow> RtQueueItem" where
  "rt_of_item i = \<lparr>rt_item_intent = intent_string (item_intent i), rt_item_note = item_note i\<rparr>"

definition rt_of_state :: "LoopState \<Rightarrow> RtLoopState" where
  "rt_of_state s =
     \<lparr>rt_queue = map rt_of_item (l_queue s),
      rt_visited = intent_string ` l_visited s,
      rt_turns_so_far = map rt_of_turn (l_turns s)\<rparr>"

definition rt_of_classification :: "OrchestratorResult \<Rightarrow> RtClassification" where
  "rt_of_classification cl =
     \<lparr>rt_intents = map intent_string (intents cl), rt_confidence = confidence cl,
      rt_reasoning = reasoning cl\<rparr>"

definition rt_of_route_result :: "RouteResult \<Rightarrow> RtRouteResult" where
  "rt_of_route_result r =
     \<lparr>rt_classification = rt_of_classification (classification r),
      rt_turns = map rt_of_turn (turns r),
      rt_unresolvedIntents = map intent_string (unresolvedIntents r)\<rparr>"

definition rt_of_agent :: "('c, 'w) DomainRagAgent \<Rightarrow> ('c, 'w) RtAgent" where
  "rt_of_agent a =
     \<lparr>rt_name = opt_name (options a),
      rt_invoke = (\<lambda>task history config w.
         (case invoke a task (Some history) config w of
            (Inl e, w1) \<Rightarrow> (Inl e, w1)
          | (Inr r, w1) \<Rightarrow> (Inr (rt_of_result r), w1)))\<rparr>"

definition rt_of_agents ::
  "(DepartmentIntent \<rightharpoonup> ('c, 'w) DomainRagAgent) \<Rightarrow> (string \<rightharpoonup> ('c, 'w) RtAgent)" where
  "rt_of_agents ags key =
     (if key = ''hr'' then map_option rt_of_agent (ags Hr)
      else if key = ''tech'' then map_option rt_of_agent (ags Tech)
      else if key = ''finance'' then map_option rt_of_agent (ags Finance)
      else None)"

definition rt_of_router :: "('c, 'w) MultiAgentRouter \<Rightarrow> ('c, 'w) RtRouter" where
  "rt_of_router router =
     \<lparr>rt_classify = (\<lambda>question config w.
         (case classify (orchestrator router) question config w of
            (Inl e, w1) \<Rightarrow> (Inl e, w1)
          | (Inr cl, w1) \<Rightarrow> (Inr (rt_of_classification cl), w1))),
      rt_agents = rt_of_agents (agents router)\<rparr>"

section \<open>Notions used by the statements\<close>

text \<open>What the loop keeps true of \<^verbatim>\<open>visited\<close> and \<^verbatim>\<open>turns\<close>.\<close>

definition loop_inv :: "LoopState \<Rightarrow> bool" where
  "loop_inv s =
     (l_visited s = set (map intentTried (l_turns s)) \<and>
      distinct (map intentTried (l_turns s)) \<and>
      Unknown \<notin> l_visited s)"

text \<open>The states the loop passes through: \<open>loop_reaches ags question config (s, w) (s', w')\<close>
  when some number of iterations, each entered with its condition true and none of them
  rejected, leads from \<open>(s, w)\<close> to \<open>(s', w')\<close>.\<close>

inductive loop_reaches ::
  "(DepartmentIntent \<rightharpoonup> ('c, 'w) DomainRagAgent) \<Rightarrow> string \<Rightarrow> 'c
     \<Rightarrow> LoopState \<times> 'w \<Rightarrow> LoopState \<times> 'w \<Rightarrow> bool"
  for ags :: "DepartmentIntent \<rightharpoonup> ('c, 'w) DomainRagAgent" and question :: string and config :: 'c
  where
    reaches_start: "loop_reaches ags question config sw sw"
  | reaches_step:
      "loop_reaches ags question config sw (s1, w1) \<Longrightarrow> loop_cond s1 \<Longrightarrow>
       loop_body ags question config s1 w1 = (Inr s2, w2) \<Longrightarrow>
       loop_reaches ags question config sw (s2, w2)"

section \<open>Scripted collaborators\<close>

text \<open>
  Concrete routers for the examples: the world is the log of the external calls made so
  far. The orchestrator's model call logs \<open>classify\<close>; an agent's retriever logs the
  agent's name and the task it was given. The parsers return a scripted result whatever
  the model said.
\<close>

definition example_orchestrator ::
  "error + OrchestratorResult \<Rightarrow> (unit, string list) OrchestratorAgent" where
  "example_orchestrator out =
     \<lparr>orch_llm = (\<lambda>messages config w. (Inr \<lparr>content = ContentString ''{}''\<rparr>, w @ [''classify''])),
      orch_prompt = (\<lambda>vars. Inr []),
      orch_parser = \<lparr>getFormatInstructions = ''json'', parse = (\<lambda>s. out)\<rparr>\<rparr>"

definition example_agent ::
  "DepartmentIntent \<Rightarrow> string \<Rightarrow> error + ParsedAnswer \<Rightarrow> (unit, string list) DomainRagAgent" where
  "example_agent i nm out =
     \<lparr>llm = (\<lambda>messages config w. (Inr \<lparr>content = ContentString ''{}''\<rparr>, w)),
      retriever = (\<lambda>q config w. (Inr [], w @ [nm @ '': '' @ q])),
      options = \<lparr>opt_intent = i, opt_name = nm, styleGuide = ''be brief''\<rparr>,
      prompt = (\<lambda>vars. Inr []),
      parser = \<lparr>getFormatInstructions = ''json'', parse = (\<lambda>s. out)\<rparr>\<rparr>"

definition example_router ::
  "error + OrchestratorResult \<Rightarrow> error + ParsedAnswer \<Rightarrow> error + ParsedAnswer
     \<Rightarrow> error + ParsedAnswer \<Rightarrow> (unit, string list) MultiAgentRouter" where
  "example_router cl hr_out tech_out finance_out =
     \<lparr>orchestrator = example_orchestrator cl,
      agents = [Hr \<mapsto> example_agent Hr ''HR'' hr_out,
                Tech \<mapsto> example_agent Tech ''IT'' tech_out,
                Finance \<mapsto> example_agent Finance ''FIN'' finance_out]\<rparr>"

definition classified :: "DepartmentIntent list \<Rightarrow> error + OrchestratorResult" where
  "classified is = Inr \<lparr>intents = is, confidence = 1, reasoning = ''scripted result''\<rparr>"

definition answers :: "string \<Rightarrow> FollowUp option \<Rightarrow> error + ParsedAnswer" where
  "answers a f = Inr \<lparr>answer = a, citations = [], follow_up = f\<rparr>"

definition hands_off :: "DepartmentIntent \<Rightarrow> string \<Rightarrow> string option \<Rightarrow> FollowUp option" where
  "hands_off i r c = Some \<lparr>fu_intent = i, fu_reason = r, context_package = c\<rparr>"

text \<open>The classifier orders hr before tech, and hr asks for finance.\<close>

definition signoff_router :: "(unit, string list) MultiAgentRouter" where
  "signoff_router =
     example_router (classified [Hr, Tech])
       (answers ''a1'' (hands_off Finance ''budget'' (Some ''needs budget sign-off'')))
       (answers ''a2'' None)
       (answers ''a3'' None)"

text \<open>Every department hands off to the next: hr to tech, tech to finance, finance to hr.\<close>

definition cycle_router :: "(unit, string list) MultiAgentRouter" where
  "cycle_router =
     example_router (classified [Hr])
       (answers ''a1'' (hands_off Tech ''r1'' None))
       (answers ''a2'' (hands_off Finance ''r2'' None))
       (answers ''a3'' (hands_off Hr ''r3'' None))"

text \<open>The classifier puts \<open>unknown\<close> first and last; no agent hands off.\<close>

definition unknown_first_router :: "(unit, string list) MultiAgentRouter" where
  "unknown_first_router =
     example_router (classified [Unknown, Hr, Unknown])
       (answers ''a1'' None) (answers ''a2'' None) (answers ''a3'' None)"

text \<open>A classifier whose parser rejects, and a tech agent whose parser rejects.\<close>

definition rejecting_classifier_router :: "(unit, string list) MultiAgentRouter" where
  "rejecting_classifier_router =
     example_router (Inl (Error ''no valid classification''))
       (answers ''a1'' None) (answers ''a2'' None) (answers ''a3'' None)"

definition rejecting_tech_router :: "(unit, string list) MultiAgentRouter" where
  "rejecting_tech_router =
     example_router (classified [Hr, Tech, Finance])
       (answers ''a1'' None) (Inl (Error ''no valid answer'')) (answers ''a3'' None)"

text \<open>hr and tech hand off to each other.\<close>

definition ping_pong_router :: "(unit, string list) MultiAgentRouter" where
  "ping_pong_router =
     example_router (classified [Hr])
       (answers ''a1'' (hands_off Tech ''r1'' None))
       (answers ''a2'' (hands_off Hr ''r2'' None))
       (answers ''a3'' None)"



section \<open>Evaluation of the examples\<close>

lemmas example_defs =
  example_router_def example_orchestrator_def example_agent_def classified_def answers_def
  hands_off_def

lemmas route_eval =
  route_def classify_def initial_state_def resolveOrderedIntents_def route_loop.simps
  loop_cond_def loop_body_def invoke_def history_of_def taskDirective_of_def history_arg_of_def
  formatContext_def extractAnswer_def Let_def

lemma cycle_router_route:
  "route cycle_router ''q'' () [] =
     (Inr \<lparr>classification = \<lparr>intents = [Hr], confidence = 1, reasoning = ''scripted result''\<rparr>,
           turns =
             [\<lparr>intentTried = Hr,
               response = \<lparr>res_text = ''a1'', sources = [],
                           handoff = Some \<lparr>h_intent = Tech, h_reason = ''r1'', h_context = None\<rparr>\<rparr>\<rparr>,
              \<lparr>intentTried = Tech,
               response = \<lparr>res_text = ''a2'', sources = [],
                           handoff = Some \<lparr>h_intent = Finance, h_reason = ''r2'', h_context = None\<rparr>\<rparr>\<rparr>,
              \<lparr>intentTried = Finance,
               response = \<lparr>res_text = ''a3'', sources = [],
                           handoff = Some \<lparr>h_intent = Hr, h_reason = ''r3'', h_context = None\<rparr>\<rparr>\<rparr>],
           unresolvedIntents = []\<rparr>,
      [''classify'', ''HR: q'',
       ''IT: q'' @ LF @ LF @ ''Follow-up directive: r1'',
       ''FIN: q'' @ LF @ LF @ ''Follow-up directive: r2''])"
  by (simp add: cycle_router_def example_defs route_eval)

section \<open>The ordered intents\<close>

lemma normalized_id:
  "(if candidate = Hr \<or> candidate = Tech \<or> candidate = Finance then candidate else Unknown)
     = candidate"
  by (cases candidate) simp_all

lemma resolve_loop_step:
  "resolve_loop unique (candidate # rest) =
     (if candidate \<notin> set unique then resolve_loop (unique @ [candidate]) rest
      else resolve_loop unique rest)"
  by (simp add: normalized_id Let_def)

lemma resolve_loop_first_seen:
  "resolve_loop unique xs =
     unique @ map (\<lambda>i. xs ! i)
                (filter (\<lambda>i. xs ! i \<notin> set unique \<union> set (take i xs)) [0..<length xs])"
proof (induction xs arbitrary: unique)
  case Nil
  show ?case by simp
next
  case (Cons x xs)
  have upt: "[0..<length (x # xs)] = 0 # map Suc [0..<length xs]"
    by (simp add: upt_conv_Cons map_Suc_upt del: upt_Suc)
  show ?case
  proof (cases "x \<in> set unique")
    case True
    then have "(\<lambda>i. xs ! i \<notin> set unique \<and> xs ! i \<noteq> x \<and> xs ! i \<notin> set (take i xs))
                 = (\<lambda>i. xs ! i \<notin> set unique \<and> xs ! i \<notin> set (take i xs))"
      by (auto simp: fun_eq_iff)
    with True show ?thesis
      unfolding resolve_loop_step upt
      by (simp add: Cons.IH filter_map comp_def)
  next
    case False
    have "(\<lambda>i. xs ! i \<noteq> x \<and> xs ! i \<notin> set unique \<and> xs ! i \<notin> set (take i xs))
            = (\<lambda>i. xs ! i \<notin> set unique \<and> xs ! i \<noteq> x \<and> xs ! i \<notin> set (take i xs))"
      by (auto simp: fun_eq_iff)
    with False show ?thesis
      unfolding resolve_loop_step upt
      by (simp add: Cons.IH filter_map comp_def)
  qed
qed

lemma resolve_loop_distinct:
  "distinct unique \<Longrightarrow> distinct (resolve_loop unique xs)"
  by (induction xs arbitrary: unique)
     (simp_all only: resolve_loop.simps(1) resolve_loop_step distinct_append distinct.simps
        set_simps, auto)

lemma resolve_loop_set:
  "set (resolve_loop unique xs) = set unique \<union> set xs"
  by (induction xs arbitrary: unique) (simp_all only: resolve_loop.simps(1) resolve_loop_step, auto)

text \<open>
  Claim C4. For every classification result, \<^verbatim>\<open>resolveOrderedIntents\<close> returns a list
  without duplicates that holds the same departments as the input, and it is the input
  with every occurrence of a department after its first one removed: the entries that
  stay are those at the positions \<open>i\<close> where the department does not occur among the
  first \<open>i\<close> entries, in the order of the input.
\<close>

theorem resolveOrderedIntents_first_seen:
  "distinct (resolveOrderedIntents result) \<and>
   set (resolveOrderedIntents result) = set (intents result) \<and>
   resolveOrderedIntents result =
     map (\<lambda>i. intents result ! i)
       (filter (\<lambda>i. intents result ! i \<notin> set (take i (intents result)))
          [0..<length (intents result)])"
proof -
  have "distinct (resolveOrderedIntents result)"
    by (simp add: resolveOrderedIntents_def resolve_loop_distinct)
  moreover have "set (resolveOrderedIntents result) = set (intents result)"
    by (simp add: resolveOrderedIntents_def resolve_loop_set)
  moreover have "resolveOrderedIntents result =
     map (\<lambda>i. intents result ! i)
       (filter (\<lambda>i. intents result ! i \<notin> set (take i (intents result)))
          [0..<length (intents result)])"
    using resolve_loop_first_seen [of "[]" "intents result"]
    by (simp add: resolveOrderedIntents_def)
  ultimately show ?thesis by blast
qed

section \<open>What the dispatch loop keeps true\<close>

lemma loop_body_inv:
  assumes "loop_inv s" and "loop_body ags question config s w = (Inr s', w')"
  shows "loop_inv s'"
  using assms
  by (auto simp: loop_body_def loop_inv_def Let_def
           split: list.splits if_splits option.splits prod.splits sum.splits)

lemma loop_body_budget:
  assumes "loop_cond s" and "loop_body ags question config s w = (Inr s', w')"
  shows "length (l_turns s') \<le> 5"
  using assms
  by (auto simp: loop_body_def loop_cond_def Let_def
           split: list.splits if_splits option.splits prod.splits sum.splits)

text \<open>The rule for the loop: what holds at its start and is kept by every iteration that
  is not rejected holds at its exit, where the loop's condition is false.\<close>

lemma route_loop_rule:
  assumes "P s"
    and "\<And>s w s1 w1. P s \<Longrightarrow> loop_cond s \<Longrightarrow>
           loop_body ags question config s w = (Inr s1, w1) \<Longrightarrow> P s1"
    and "route_loop ags question config s w = (Inr s', w')"
  shows "P s' \<and> \<not> loop_cond s'"
  using assms
proof (induction ags question config s w rule: route_loop.induct)
  case (1 ags question config s w)
  note init = "1.prems"(1) and step = "1.prems"(2) and run = "1.prems"(3)
  show ?case
  proof (cases "loop_cond s")
    case False
    with init run show ?thesis by (simp add: route_loop.simps)
  next
    case True
    show ?thesis
    proof (cases "loop_body ags question config s w")
      case (Pair x w1)
      show ?thesis
      proof (cases x)
        case (Inl e)
        with True Pair run show ?thesis by (simp add: route_loop.simps)
      next
        case (Inr s1)
        with True Pair run have r: "route_loop ags question config s1 w1 = (Inr s', w')"
          by (simp add: route_loop.simps)
        from Pair Inr have b: "loop_body ags question config s w = (Inr s1, w1)"
          by simp
        have "P s1"
          by (rule step [OF init True b])
        from this step r show ?thesis
          by (rule "1.IH" [OF True Pair [symmetric] Inr])
      qed
    qed
  qed
qed

lemma route_loop_inv:
  assumes "loop_inv s" and "route_loop ags question config s w = (Inr s', w')"
  shows "loop_inv s'"
proof -
  have "loop_inv s' \<and> \<not> loop_cond s'"
  proof (rule route_loop_rule [where P = loop_inv, OF assms(1) _ assms(2)])
    fix s w s1 w1
    assume "loop_inv s" and "loop_body ags question config s w = (Inr s1, w1)"
    then show "loop_inv s1" by (rule loop_body_inv)
  qed
  then show ?thesis by simp
qed

lemma route_loop_budget:
  assumes "length (l_turns s) \<le> 5" and "route_loop ags question config s w = (Inr s', w')"
  shows "length (l_turns s') \<le> 5"
proof -
  have "length (l_turns s') \<le> 5 \<and> \<not> loop_cond s'"
  proof (rule route_loop_rule [where P = "\<lambda>s. length (l_turns s) \<le> 5", OF assms(1) _ assms(2)])
    fix s w s1 w1
    assume "loop_cond s" and "loop_body ags question config s w = (Inr s1, w1)"
    then show "length (l_turns s1) \<le> 5" by (rule loop_body_budget)
  qed
  then show ?thesis by simp
qed

lemma route_loop_exit:
  assumes "route_loop ags question config s w = (Inr s', w')"
  shows "\<not> loop_cond s'"
proof -
  have "True \<and> \<not> loop_cond s'"
    by (rule route_loop_rule [where P = "\<lambda>s. True", OF TrueI _ assms]) simp
  then show ?thesis by simp
qed

lemma initial_state_inv: "loop_inv (initial_state cl)"
  by (simp add: loop_inv_def initial_state_def)

lemma route_InrE:
  assumes "route router question config w = (Inr r, w')"
  obtains cl w1 s where
    "classify (orchestrator router) question config w = (Inr cl, w1)"
    "route_loop (agents router) question config (initial_state cl) w1 = (Inr s, w')"
    "r = \<lparr>classification = cl, turns = l_turns s,
          unresolvedIntents =
            filter (\<lambda>intent. intent \<notin> l_visited s) (map item_intent (l_queue s))\<rparr>"
  using assms
  by (auto simp: route_def split: prod.splits sum.splits)

lemma distinct_intents_le3:
  fixes xs :: "DepartmentIntent list"
  assumes "distinct xs" and "Unknown \<notin> set xs"
  shows "length xs \<le> 3"
proof -
  have "set xs \<subseteq> {Hr, Tech, Finance}"
  proof
    fix x assume "x \<in> set xs"
    with assms(2) show "x \<in> {Hr, Tech, Finance}" by (cases x) auto
  qed
  then have "card (set xs) \<le> card {Hr, Tech, Finance}"
    by (intro card_mono) auto
  with assms(1) show ?thesis by (simp add: distinct_card)
qed

lemma route_loop_unfold:
  "loop_cond s \<Longrightarrow>
     route_loop ags question config s w =
       (case loop_body ags question config s w of
          (Inl e, w1) \<Rightarrow> (Inl e, w1)
        | (Inr s1, w1) \<Rightarrow> route_loop ags question config s1 w1)"
  by (subst route_loop.simps) simp

lemma route_loop_stop:
  "\<not> loop_cond s \<Longrightarrow> route_loop ags question config s w = (Inr s, w)"
  by (subst route_loop.simps) simp

lemma route_loop_step:
  "loop_cond s \<Longrightarrow> loop_body ags question config s w = (Inr s1, w1) \<Longrightarrow>
     route_loop ags question config s w = route_loop ags question config s1 w1"
  by (simp add: route_loop_unfold)

lemma route_loop_fail:
  "loop_cond s \<Longrightarrow> loop_body ags question config s w = (Inl e, w1) \<Longrightarrow>
     route_loop ags question config s w = (Inl e, w1)"
  by (simp add: route_loop_unfold)

text \<open>The loop does not look at the entry of the agent map for \<open>Unknown\<close>.\<close>

lemma history_of_agents_cong:
  assumes "\<And>i. i \<noteq> Unknown \<Longrightarrow> ags' i = ags i"
  shows "history_of ags' ts = history_of ags ts"
  using assms by (simp add: history_of_def cong: if_cong)

lemma loop_body_agents_cong:
  assumes "\<And>i. i \<noteq> Unknown \<Longrightarrow> ags' i = ags i"
  shows "loop_body ags' question config s w = loop_body ags question config s w"
proof (cases "l_queue s")
  case Nil
  then show ?thesis by (simp add: loop_body_def)
next
  case (Cons item rest)
  show ?thesis
  proof (cases "item_intent item = Unknown")
    case True
    with Cons show ?thesis by (simp add: loop_body_def Let_def)
  next
    case False
    then have e: "ags' (item_intent item) = ags (item_intent item)"
      by (rule assms)
    have h: "history_of ags' (l_turns s) = history_of ags (l_turns s)"
      using assms by (rule history_of_agents_cong)
    show ?thesis
      unfolding loop_body_def Let_def Cons list.case e h by (rule refl)
  qed
qed

lemma route_loop_agents_cong:
  assumes "\<And>i. i \<noteq> Unknown \<Longrightarrow> ags' i = ags i"
  shows "route_loop ags' question config s w = route_loop ags question config s w"
  using assms
proof (induction ags question config s w rule: route_loop.induct)
  case (1 ags question config s w)
  note same = "1.prems"
  show ?case
  proof (cases "loop_cond s")
    case False
    then show ?thesis by (simp add: route_loop_stop)
  next
    case True
    have b: "loop_body ags' question config s w = loop_body ags question config s w"
      using same by (rule loop_body_agents_cong)
    show ?thesis
    proof (cases "loop_body ags question config s w")
      case (Pair x w1)
      show ?thesis
      proof (cases x)
        case (Inl e)
        with Pair b have "loop_body ags question config s w = (Inl e, w1)"
          and "loop_body ags' question config s w = (Inl e, w1)"
          by simp_all
        with True show ?thesis
          by (simp add: route_loop_fail)
      next
        case (Inr s1)
        with Pair b have "loop_body ags question config s w = (Inr s1, w1)"
          and "loop_body ags' question config s w = (Inr s1, w1)"
          by simp_all
        with True have "route_loop ags question config s w = route_loop ags question config s1 w1"
          and "route_loop ags' question config s w = route_loop ags' question config s1 w1"
          by (simp_all add: route_loop_step)
        with "1.IH" [OF True Pair [symmetric] Inr same] show ?thesis
          by simp
      qed
    qed
  qed
qed

lemma route_unknown_agent:
  "route (router\<lparr>agents := (agents router)(Unknown := a)\<rparr>) question config w
     = route router question config w"
proof -
  have "route_loop ((agents router)(Unknown := a)) question config s v
          = route_loop (agents router) question config s v" for s v
    by (rule route_loop_agents_cong) simp
  moreover have "agents (router\<lparr>agents := (agents router)(Unknown := a)\<rparr>)
                   = (agents router)(Unknown := a)"
    and "orchestrator (router\<lparr>agents := (agents router)(Unknown := a)\<rparr>) = orchestrator router"
    by simp_all
  ultimately show ?thesis
    unfolding route_def by (simp only:)
qed

lemma loop_inv_turns:
  assumes "loop_inv s"
  shows "distinct (map intentTried (l_turns s))"
    and "Unknown \<notin> set (map intentTried (l_turns s))"
    and "l_visited s = set (map intentTried (l_turns s))"
  using assms by (auto simp: loop_inv_def)

section \<open>Bounds on a completed call\<close>

text \<open>
  Claim C1. When a call to \<^verbatim>\<open>route\<close> returns a result, the classifier returned
  a classification and the loop left a state \<open>s\<close> whose turns are the returned ones;
  in that state the visited set has at most 5 elements, there are at most 5 turns, and
  the visited set is the set of the intents tried in the returned turns.
\<close>

theorem route_visited_within_budget:
  assumes "route router question config w = (Inr r, w')"
  shows "\<exists>cl w1 s.
           classify (orchestrator router) question config w = (Inr cl, w1) \<and>
           route_loop (agents router) question config (initial_state cl) w1 = (Inr s, w') \<and>
           turns r = l_turns s \<and>
           card (l_visited s) \<le> 5 \<and>
           length (turns r) \<le> 5 \<and>
           l_visited s = set (map intentTried (turns r))"
proof -
  from assms obtain cl w1 s where
    c: "classify (orchestrator router) question config w = (Inr cl, w1)" and
    l: "route_loop (agents router) question config (initial_state cl) w1 = (Inr s, w')" and
    r: "r = \<lparr>classification = cl, turns = l_turns s,
             unresolvedIntents =
               filter (\<lambda>intent. intent \<notin> l_visited s) (map item_intent (l_queue s))\<rparr>"
    by (rule route_InrE)
  have "length (l_turns (initial_state cl)) \<le> 5"
    by (simp add: initial_state_def)
  then have len: "length (l_turns s) \<le> 5"
    using l by (rule route_loop_budget)
  have "loop_inv s"
    using initial_state_inv l by (rule route_loop_inv)
  then have vis: "l_visited s = set (map intentTried (l_turns s))"
    by (simp add: loop_inv_def)
  have "card (set (map intentTried (l_turns s))) \<le> length (map intentTried (l_turns s))"
    by (rule card_length)
  with len vis have "card (l_visited s) \<le> 5"
    by simp
  with c l r len vis show ?thesis
    by auto
qed

theorem route_visited_within_budget_witness:
  "route signoff_router ''q'' () [] =
     (Inr \<lparr>classification = \<lparr>intents = [Hr, Tech], confidence = 1, reasoning = ''scripted result''\<rparr>,
           turns =
             [\<lparr>intentTried = Hr,
               response = \<lparr>res_text = ''a1'', sources = [],
                           handoff = Some \<lparr>h_intent = Finance, h_reason = ''budget'',
                                            h_context = Some ''needs budget sign-off''\<rparr>\<rparr>\<rparr>,
              \<lparr>intentTried = Tech,
               response = \<lparr>res_text = ''a2'', sources = [], handoff = None\<rparr>\<rparr>,
              \<lparr>intentTried = Finance,
               response = \<lparr>res_text = ''a3'', sources = [], handoff = None\<rparr>\<rparr>],
           unresolvedIntents = []\<rparr>,
      [''classify'', ''HR: q'', ''IT: q'',
       ''FIN: q'' @ LF @ LF @ ''Follow-up directive: needs budget sign-off''])
   \<and> (\<exists>s. route_loop (agents signoff_router) ''q'' ()
              (initial_state \<lparr>intents = [Hr, Tech], confidence = 1, reasoning = ''scripted result''\<rparr>)
              [''classify'']
            = (Inr s, [''classify'', ''HR: q'', ''IT: q'',
                       ''FIN: q'' @ LF @ LF @ ''Follow-up directive: needs budget sign-off''])
          \<and> card (l_visited s) \<le> 5 \<and> length (l_turns s) = 3
          \<and> l_visited s = {Hr, Tech, Finance})"
proof -
  let ?r = "\<lparr>classification = \<lparr>intents = [Hr, Tech], confidence = 1, reasoning = ''scripted result''\<rparr>,
           turns =
             [\<lparr>intentTried = Hr,
               response = \<lparr>res_text = ''a1'', sources = [],
                           handoff = Some \<lparr>h_intent = Finance, h_reason = ''budget'',
                                            h_context = Some ''needs budget sign-off''\<rparr>\<rparr>\<rparr>,
              \<lparr>intentTried = Tech,
               response = \<lparr>res_text = ''a2'', sources = [], handoff = None\<rparr>\<rparr>,
              \<lparr>intentTried = Finance,
               response = \<lparr>res_text = ''a3'', sources = [], handoff = None\<rparr>\<rparr>],
           unresolvedIntents = []\<rparr>"
  let ?w = "[''classify'', ''HR: q'', ''IT: q'',
             ''FIN: q'' @ LF @ LF @ ''Follow-up directive: needs budget sign-off'']"
  have run: "route signoff_router ''q'' () [] = (Inr ?r, ?w)"
    by (simp add: signoff_router_def example_defs route_eval)
  have c: "classify (orchestrator signoff_router) ''q'' () [] =
             (Inr \<lparr>intents = [Hr, Tech], confidence = 1, reasoning = ''scripted result''\<rparr>,
              [''classify''])"
    by (simp add: signoff_router_def example_defs classify_def)
  from route_visited_within_budget [OF run] obtain cl w1 s where
    a: "classify (orchestrator signoff_router) ''q'' () [] = (Inr cl, w1)" and
    b: "route_loop (agents signoff_router) ''q'' () (initial_state cl) w1 = (Inr s, ?w)" and
    t: "turns ?r = l_turns s" and
    k: "card (l_visited s) \<le> 5" and
    v: "l_visited s = set (map intentTried (turns ?r))"
    by blast
  from a c have cl: "cl = \<lparr>intents = [Hr, Tech], confidence = 1, reasoning = ''scripted result''\<rparr>"
    and w1: "w1 = [''classify'']"
    by simp_all
  from t [symmetric] have n: "length (l_turns s) = 3"
    by simp
  from v have "l_visited s = {Hr, Tech, Finance}"
    by simp
  with b k n cl w1
  have "\<exists>s. route_loop (agents signoff_router) ''q'' ()
              (initial_state \<lparr>intents = [Hr, Tech], confidence = 1, reasoning = ''scripted result''\<rparr>)
              [''classify''] = (Inr s, ?w)
          \<and> card (l_visited s) \<le> 5 \<and> length (l_turns s) = 3
          \<and> l_visited s = {Hr, Tech, Finance}"
    by blast
  with run show ?thesis by blast
qed

text \<open>
  Claim C2. In the turns a call to \<^verbatim>\<open>route\<close> returns, no department occurs twice
  as \<^verbatim>\<open>intentTried\<close>, whatever the classifier ordered and whatever the agents
  handed off to.
\<close>

theorem route_turns_distinct:
  assumes "route router question config w = (Inr r, w')"
  shows "distinct (map intentTried (turns r))"
proof -
  from assms obtain cl w1 s where
    l: "route_loop (agents router) question config (initial_state cl) w1 = (Inr s, w')" and
    r: "r = \<lparr>classification = cl, turns = l_turns s,
             unresolvedIntents =
               filter (\<lambda>intent. intent \<notin> l_visited s) (map item_intent (l_queue s))\<rparr>"
    by (rule route_InrE)
  have "loop_inv s"
    using initial_state_inv l by (rule route_loop_inv)
  with r show ?thesis
    by (simp add: loop_inv_def)
qed

theorem route_turns_distinct_witness:
  "map intentTried (turns (projr (fst (route cycle_router ''q'' () [])))) = [Hr, Tech, Finance] \<and>
   distinct (map intentTried (turns (projr (fst (route cycle_router ''q'' () [])))))"
  using route_turns_distinct [OF cycle_router_route] cycle_router_route
  by simp

text \<open>
  Claim C3. In the turns a call to \<^verbatim>\<open>route\<close> returns, \<open>unknown\<close> is never the
  intent tried, and no agent is invoked for it: whatever stands in the agent map at
  \<open>unknown\<close> (an agent or nothing), the call returns the same result and leaves the
  same world.
\<close>

theorem route_never_dispatches_unknown:
  assumes "route router question config w = (Inr r, w')"
  shows "Unknown \<notin> set (map intentTried (turns r)) \<and>
         route (router\<lparr>agents := (agents router)(Unknown := a)\<rparr>) question config w = (Inr r, w')"
proof -
  from assms obtain cl w1 s where
    l: "route_loop (agents router) question config (initial_state cl) w1 = (Inr s, w')" and
    r: "r = \<lparr>classification = cl, turns = l_turns s,
             unresolvedIntents =
               filter (\<lambda>intent. intent \<notin> l_visited s) (map item_intent (l_queue s))\<rparr>"
    by (rule route_InrE)
  have "loop_inv s"
    using initial_state_inv l by (rule route_loop_inv)
  with r have "Unknown \<notin> set (map intentTried (turns r))"
    by (auto simp: loop_inv_def)
  with assms show ?thesis
    by (simp add: route_unknown_agent)
qed

theorem route_never_dispatches_unknown_witness:
  "route unknown_first_router ''q'' () [] =
     (Inr \<lparr>classification =
             \<lparr>intents = [Unknown, Hr, Unknown], confidence = 1, reasoning = ''scripted result''\<rparr>,
           turns = [\<lparr>intentTried = Hr,
                     response = \<lparr>res_text = ''a1'', sources = [], handoff = None\<rparr>\<rparr>],
           unresolvedIntents = []\<rparr>,
      [''classify'', ''HR: q''])
   \<and> Unknown \<notin> set [Hr]
   \<and> route (unknown_first_router
              \<lparr>agents := (agents unknown_first_router)
                           (Unknown \<mapsto> example_agent Unknown ''X'' (answers ''a4'' None))\<rparr>)
        ''q'' () [] =
     (Inr \<lparr>classification =
             \<lparr>intents = [Unknown, Hr, Unknown], confidence = 1, reasoning = ''scripted result''\<rparr>,
           turns = [\<lparr>intentTried = Hr,
                     response = \<lparr>res_text = ''a1'', sources = [], handoff = None\<rparr>\<rparr>],
           unresolvedIntents = []\<rparr>,
      [''classify'', ''HR: q''])"
proof -
  have run: "route unknown_first_router ''q'' () [] =
     (Inr \<lparr>classification =
             \<lparr>intents = [Unknown, Hr, Unknown], confidence = 1, reasoning = ''scripted result''\<rparr>,
           turns = [\<lparr>intentTried = Hr,
                     response = \<lparr>res_text = ''a1'', sources = [], handoff = None\<rparr>\<rparr>],
           unresolvedIntents = []\<rparr>,
      [''classify'', ''HR: q''])"
    by (simp add: unknown_first_router_def example_defs route_eval)
  from route_never_dispatches_unknown [OF run, of "Some (example_agent Unknown ''X'' (answers ''a4'' None))"] run
  show ?thesis by simp
qed

text \<open>
  Claim C10. A call to \<^verbatim>\<open>route\<close> that returns a result returns at most 3 turns
  and an empty \<^verbatim>\<open>unresolvedIntents\<close>: the loop is left with fewer than 5 turns,
  so with an empty queue.
\<close>

theorem route_at_most_three_turns:
  assumes "route router question config w = (Inr r, w')"
  shows "length (turns r) \<le> 3 \<and> unresolvedIntents r = [] \<and>
         (\<exists>cl w1 s.
            classify (orchestrator router) question config w = (Inr cl, w1) \<and>
            route_loop (agents router) question config (initial_state cl) w1 = (Inr s, w') \<and>
            turns r = l_turns s \<and> length (l_turns s) < 5 \<and> l_queue s = [])"
proof -
  from assms obtain cl w1 s where
    c: "classify (orchestrator router) question config w = (Inr cl, w1)" and
    l: "route_loop (agents router) question config (initial_state cl) w1 = (Inr s, w')" and
    r: "r = \<lparr>classification = cl, turns = l_turns s,
             unresolvedIntents =
               filter (\<lambda>intent. intent \<notin> l_visited s) (map item_intent (l_queue s))\<rparr>"
    by (rule route_InrE)
  have "loop_inv s"
    using initial_state_inv l by (rule route_loop_inv)
  then have "distinct (map intentTried (l_turns s))"
    and "Unknown \<notin> set (map intentTried (l_turns s))"
    by (rule loop_inv_turns)+
  then have "length (map intentTried (l_turns s)) \<le> 3"
    by (rule distinct_intents_le3)
  then have len: "length (l_turns s) \<le> 3"
    by simp
  have "\<not> loop_cond s"
    using l by (rule route_loop_exit)
  with len have q: "l_queue s = []"
    by (simp add: loop_cond_def)
  from len have "length (l_turns s) < 5"
    by simp
  with c l q have "\<exists>cl w1 s0.
            classify (orchestrator router) question config w = (Inr cl, w1) \<and>
            route_loop (agents router) question config (initial_state cl) w1 = (Inr s0, w') \<and>
            l_turns s = l_turns s0 \<and> length (l_turns s0) < 5 \<and> l_queue s0 = []"
    by blast
  with r len q show ?thesis
    by simp
qed

theorem route_at_most_three_turns_witness:
  "map intentTried (turns (projr (fst (route cycle_router ''q'' () [])))) = [Hr, Tech, Finance] \<and>
   length (turns (projr (fst (route cycle_router ''q'' () [])))) \<le> 3 \<and>
   unresolvedIntents (projr (fst (route cycle_router ''q'' () []))) = []"
  using route_at_most_three_turns [OF cycle_router_route] cycle_router_route
  by simp

section \<open>Errors\<close>

text \<open>One iteration that dispatches, and one whose agent rejects.\<close>

lemma loop_body_dispatch:
  assumes "l_queue s = item # rest"
    and "item_intent item \<noteq> Unknown" and "item_intent item \<notin> l_visited s"
    and "ags (item_intent item) = Some agent"
    and "invoke agent (taskDirective_of question (item_note item))
           (Some (history_arg_of (history_of ags (l_turns s)))) config w = (Inr resp, w1)"
  shows "loop_body ags question config s w =
           (Inr \<lparr>l_queue =
                   (case handoff resp of
                      None \<Rightarrow> rest
                    | Some h \<Rightarrow>
                        if h_intent h \<notin> insert (item_intent item) (l_visited s)
                        then rest @ [\<lparr>item_intent = h_intent h,
                                      item_note = Some (case h_context h of
                                                          Some c \<Rightarrow> c
                                                        | None \<Rightarrow> h_reason h)\<rparr>]
                        else rest),
                 l_visited = insert (item_intent item) (l_visited s),
                 l_turns = l_turns s @ [\<lparr>intentTried = item_intent item, response = resp\<rparr>]\<rparr>,
            w1)"
  using assms by (simp add: loop_body_def Let_def)

lemma loop_body_rejected:
  assumes "l_queue s = item # rest"
    and "item_intent item \<noteq> Unknown" and "item_intent item \<notin> l_visited s"
    and "ags (item_intent item) = Some agent"
    and "invoke agent (taskDirective_of question (item_note item))
           (Some (history_arg_of (history_of ags (l_turns s)))) config w = (Inl e, w1)"
  shows "loop_body ags question config s w = (Inl e, w1)"
  using assms by (simp add: loop_body_def Let_def)

lemma loop_reaches_route_loop:
  assumes "loop_reaches ags question config sw sw'"
  shows "route_loop ags question config (fst sw) (snd sw)
           = route_loop ags question config (fst sw') (snd sw')"
  using assms
proof (induction rule: loop_reaches.induct)
  case (reaches_start sw)
  show ?case by (rule refl)
next
  case (reaches_step sw s1 w1 s2 w2)
  from reaches_step.hyps(2,3)
  have "route_loop ags question config s1 w1 = route_loop ags question config s2 w2"
    by (rule route_loop_step)
  with reaches_step.IH show ?case by simp
qed

text \<open>
  Claim C7. When \<^verbatim>\<open>classify\<close> is rejected, \<^verbatim>\<open>route\<close> returns that error and
  the world as the classifier left it: no result, and no further call. When the loop,
  started after a classification, has reached a state in which it dispatches the head of
  the queue and that agent's \<^verbatim>\<open>invoke\<close> is rejected, \<^verbatim>\<open>route\<close> returns that
  error and the world as the rejected call left it: no result with the turns so far, and
  no second attempt.
\<close>

theorem route_propagates_errors:
  "(classify (orchestrator router) question config w = (Inl e, w1) \<longrightarrow>
      route router question config w = (Inl e, w1)) \<and>
   (classify (orchestrator router) question config w = (Inr cl, w1) \<and>
    loop_reaches (agents router) question config (initial_state cl, w1) (s, w2) \<and>
    loop_cond s \<and> l_queue s = item # rest \<and>
    item_intent item \<noteq> Unknown \<and> item_intent item \<notin> l_visited s \<and>
    agents router (item_intent item) = Some agent \<and>
    invoke agent (taskDirective_of question (item_note item))
      (Some (history_arg_of (history_of (agents router) (l_turns s)))) config w2 = (Inl e, w3) \<longrightarrow>
      route router question config w = (Inl e, w3))"
proof (intro conjI impI)
  assume "classify (orchestrator router) question config w = (Inl e, w1)"
  then show "route router question config w = (Inl e, w1)"
    by (simp add: route_def)
next
  assume a: "classify (orchestrator router) question config w = (Inr cl, w1) \<and>
    loop_reaches (agents router) question config (initial_state cl, w1) (s, w2) \<and>
    loop_cond s \<and> l_queue s = item # rest \<and>
    item_intent item \<noteq> Unknown \<and> item_intent item \<notin> l_visited s \<and>
    agents router (item_intent item) = Some agent \<and>
    invoke agent (taskDirective_of question (item_note item))
      (Some (history_arg_of (history_of (agents router) (l_turns s)))) config w2 = (Inl e, w3)"
  then have "loop_body (agents router) question config s w2 = (Inl e, w3)"
    by (intro loop_body_rejected [where item = item and rest = rest and agent = agent]) simp_all
  with a have "route_loop (agents router) question config s w2 = (Inl e, w3)"
    by (intro route_loop_fail) simp_all
  moreover from a have "route_loop (agents router) question config (initial_state cl) w1
                          = route_loop (agents router) question config s w2"
    using loop_reaches_route_loop [of "agents router" question config "(initial_state cl, w1)" "(s, w2)"]
    by simp
  ultimately show "route router question config w = (Inl e, w3)"
    using a by (simp add: route_def)
qed

theorem route_propagates_errors_witness:
  "classify (orchestrator rejecting_classifier_router) ''q'' () [] =
     (Inl (Error ''no valid classification''), [''classify'']) \<and>
   route rejecting_classifier_router ''q'' () [] =
     (Inl (Error ''no valid classification''), [''classify'']) \<and>
   loop_reaches (agents rejecting_tech_router) ''q'' ()
     (initial_state \<lparr>intents = [Hr, Tech, Finance], confidence = 1, reasoning = ''scripted result''\<rparr>,
      [''classify''])
     (\<lparr>l_queue = [\<lparr>item_intent = Tech, item_note = None\<rparr>,
                  \<lparr>item_intent = Finance, item_note = None\<rparr>],
       l_visited = {Hr},
       l_turns = [\<lparr>intentTried = Hr,
                   response = \<lparr>res_text = ''a1'', sources = [], handoff = None\<rparr>\<rparr>]\<rparr>,
      [''classify'', ''HR: q'']) \<and>
   invoke (example_agent Tech ''IT'' (Inl (Error ''no valid answer''))) ''q''
     (Some (''HR:'' @ LF @ ''a1'')) () [''classify'', ''HR: q''] =
     (Inl (Error ''no valid answer''), [''classify'', ''HR: q'', ''IT: q'']) \<and>
   route rejecting_tech_router ''q'' () [] =
     (Inl (Error ''no valid answer''), [''classify'', ''HR: q'', ''IT: q''])"
proof -
  let ?cl = "\<lparr>intents = [Hr, Tech, Finance], confidence = 1, reasoning = ''scripted result''\<rparr>"
  let ?s = "\<lparr>l_queue = [\<lparr>item_intent = Tech, item_note = None\<rparr>,
                       \<lparr>item_intent = Finance, item_note = None\<rparr>],
            l_visited = {Hr},
            l_turns = [\<lparr>intentTried = Hr,
                        response = \<lparr>res_text = ''a1'', sources = [], handoff = None\<rparr>\<rparr>]\<rparr>"
  let ?tech = "example_agent Tech ''IT'' (Inl (Error ''no valid answer''))"
  have c1: "classify (orchestrator rejecting_classifier_router) ''q'' () [] =
              (Inl (Error ''no valid classification''), [''classify''])"
    by (simp add: rejecting_classifier_router_def example_defs classify_def)
  have r1: "route rejecting_classifier_router ''q'' () [] =
              (Inl (Error ''no valid classification''), [''classify''])"
    using route_propagates_errors
            [of rejecting_classifier_router "''q''" "()" "[]" "Error ''no valid classification''"
               "[''classify'']"]
          c1
    by blast
  have c2: "classify (orchestrator rejecting_tech_router) ''q'' () [] = (Inr ?cl, [''classify''])"
    by (simp add: rejecting_tech_router_def example_defs classify_def)
  have b: "loop_body (agents rejecting_tech_router) ''q'' () (initial_state ?cl) [''classify'']
             = (Inr ?s, [''classify'', ''HR: q''])"
    by (simp add: rejecting_tech_router_def example_defs route_eval)
  have "loop_cond (initial_state ?cl)"
    by (simp add: loop_cond_def initial_state_def resolveOrderedIntents_def)
  with reaches_start have reach:
    "loop_reaches (agents rejecting_tech_router) ''q'' () (initial_state ?cl, [''classify''])
       (?s, [''classify'', ''HR: q''])"
    using b by (rule reaches_step)
  have cond: "loop_cond ?s"
    by (simp add: loop_cond_def)
  have ag: "agents rejecting_tech_router Tech = Some ?tech"
    by (simp add: rejecting_tech_router_def example_router_def)
  have h: "history_arg_of (history_of (agents rejecting_tech_router) (l_turns ?s)) = ''HR:'' @ LF @ ''a1''"
    by (simp add: rejecting_tech_router_def example_defs history_arg_of_def history_of_def)
  have inv: "invoke ?tech ''q'' (Some (''HR:'' @ LF @ ''a1'')) () [''classify'', ''HR: q''] =
               (Inl (Error ''no valid answer''), [''classify'', ''HR: q'', ''IT: q''])"
    by (simp add: example_defs invoke_def formatContext_def extractAnswer_def)
  have r2: "route rejecting_tech_router ''q'' () [] =
              (Inl (Error ''no valid answer''), [''classify'', ''HR: q'', ''IT: q''])"
    using route_propagates_errors
            [of rejecting_tech_router "''q''" "()" "[]" "Error ''no valid answer''"
               "[''classify'']" ?cl ?s "[''classify'', ''HR: q'']"
               "\<lparr>item_intent = Tech, item_note = None\<rparr>"
               "[\<lparr>item_intent = Finance, item_note = None\<rparr>]" ?tech
               "[''classify'', ''HR: q'', ''IT: q'']"]
          c2 reach cond ag h inv
    by (simp add: taskDirective_of_def)
  from c1 r1 reach inv r2 show ?thesis
    by blast
qed

section \<open>The handoff of a domain agent\<close>

lemma invoke_InrE:
  assumes "invoke agent question history_arg config w = (Inr r, w')"
  obtains sourceDocs w1 messages llmResponse parsed where
    "retriever agent question config w = (Inr sourceDocs, w1)"
    "llm agent messages config w1 = (Inr llmResponse, w')"
    "parse (parser agent) (extractAnswer llmResponse) = Inr parsed"
    "res_text r = answer parsed"
    "handoff r =
       (case follow_up parsed of
          None \<Rightarrow> None
        | Some f \<Rightarrow>
            if fu_intent f \<noteq> Unknown
            then Some \<lparr>h_intent = fu_intent f, h_reason = fu_reason f,
                       h_context = context_package f\<rparr>
            else None)"
  using assms
  by (auto simp: invoke_def Let_def split: prod.splits sum.splits)

text \<open>
  Claim C8. A result of \<^verbatim>\<open>DomainRagAgent.invoke\<close> never has \<open>unknown\<close> as the
  intent of its handoff. The result comes from a parsed answer of the model's reply:
  without a \<^verbatim>\<open>follow_up\<close>, or with one whose intent is \<open>unknown\<close>, the
  result has no handoff; with a \<^verbatim>\<open>follow_up\<close> that names a department, the
  handoff has that intent, the reason given and the context package given (or none).
\<close>

theorem invoke_handoff_never_unknown:
  assumes "invoke agent question history_arg config w = (Inr r, w')"
  shows "map_option h_intent (handoff r) \<noteq> Some Unknown \<and>
         (\<exists>messages w1 llmResponse parsed.
            llm agent messages config w1 = (Inr llmResponse, w') \<and>
            parse (parser agent) (extractAnswer llmResponse) = Inr parsed \<and>
            handoff r =
              (case follow_up parsed of
                 None \<Rightarrow> None
               | Some f \<Rightarrow>
                   if fu_intent f = Unknown then None
                   else Some \<lparr>h_intent = fu_intent f, h_reason = fu_reason f,
                              h_context = context_package f\<rparr>))"
proof -
  from assms obtain sourceDocs w1 messages llmResponse parsed where
    "retriever agent question config w = (Inr sourceDocs, w1)" and
    l: "llm agent messages config w1 = (Inr llmResponse, w')" and
    p: "parse (parser agent) (extractAnswer llmResponse) = Inr parsed" and
    h: "handoff r =
       (case follow_up parsed of
          None \<Rightarrow> None
        | Some f \<Rightarrow>
            if fu_intent f \<noteq> Unknown
            then Some \<lparr>h_intent = fu_intent f, h_reason = fu_reason f,
                       h_context = context_package f\<rparr>
            else None)"
    by (rule invoke_InrE)
  from h have h': "handoff r =
              (case follow_up parsed of
                 None \<Rightarrow> None
               | Some f \<Rightarrow>
                   if fu_intent f = Unknown then None
                   else Some \<lparr>h_intent = fu_intent f, h_reason = fu_reason f,
                              h_context = context_package f\<rparr>)"
    by (simp split: option.splits)
  then have "map_option h_intent (handoff r) \<noteq> Some Unknown"
    by (simp split: option.splits)
  with l p h' show ?thesis
    by blast
qed

theorem invoke_handoff_never_unknown_witness:
  "invoke (example_agent Hr ''HR'' (answers ''a1'' (hands_off Unknown ''someone else'' None)))
     ''q'' None () [] =
     (Inr \<lparr>res_text = ''a1'', sources = [], handoff = None\<rparr>, [''HR: q'']) \<and>
   invoke (example_agent Hr ''HR'' (answers ''a1'' (hands_off Finance ''budget'' (Some ''cost centre 12''))))
     ''q'' None () [] =
     (Inr \<lparr>res_text = ''a1'', sources = [],
           handoff = Some \<lparr>h_intent = Finance, h_reason = ''budget'',
                            h_context = Some ''cost centre 12''\<rparr>\<rparr>, [''HR: q'']) \<and>
   map_option h_intent (None :: Handoff option) \<noteq> Some Unknown \<and>
   map_option h_intent
     (Some \<lparr>h_intent = Finance, h_reason = ''budget'', h_context = Some ''cost centre 12''\<rparr>)
     \<noteq> Some Unknown"
proof -
  have a: "invoke (example_agent Hr ''HR'' (answers ''a1'' (hands_off Unknown ''someone else'' None)))
     ''q'' None () [] =
     (Inr \<lparr>res_text = ''a1'', sources = [], handoff = None\<rparr>, [''HR: q''])"
    by (simp add: example_defs invoke_def formatContext_def extractAnswer_def)
  have b: "invoke (example_agent Hr ''HR'' (answers ''a1'' (hands_off Finance ''budget'' (Some ''cost centre 12''))))
     ''q'' None () [] =
     (Inr \<lparr>res_text = ''a1'', sources = [],
           handoff = Some \<lparr>h_intent = Finance, h_reason = ''budget'',
                            h_context = Some ''cost centre 12''\<rparr>\<rparr>, [''HR: q''])"
    by (simp add: example_defs invoke_def formatContext_def extractAnswer_def)
  from invoke_handoff_never_unknown [OF a] invoke_handoff_never_unknown [OF b] a b
  show ?thesis by simp
qed

section \<open>Scenarios\<close>

text \<open>
  Claim C5. The classifier returns \<open>[hr, tech]\<close>; the hr agent, given the question and
  no history, answers with a handoff to finance whose context is
  \<open>needs budget sign-off\<close>; the tech agent, given the question and hr's answer as
  history, answers without a handoff; the finance agent, given the question followed by
  the section \<open>Follow-up directive: needs budget sign-off\<close> and both answers as
  history, answers without a handoff. Then \<^verbatim>\<open>route\<close> returns the turns hr, tech,
  finance in this order, with these three responses, and nothing unresolved.
\<close>

theorem route_signoff_scenario:
  assumes cl: "classify (orchestrator router) question config w = (Inr cl, w0)"
    and ints: "intents cl = [Hr, Tech]"
    and ags: "agents router Hr = Some hr_agent" "agents router Tech = Some tech_agent"
      "agents router Finance = Some finance_agent"
    and hr: "invoke hr_agent question (Some ''No prior agent responses.'') config w0 = (Inr r1, w1)"
    and hr_handoff: "handoff r1 = Some \<lparr>h_intent = Finance, h_reason = reason,
                                        h_context = Some ''needs budget sign-off''\<rparr>"
    and tech: "invoke tech_agent question
                 (Some (opt_name (options hr_agent) @ '':'' @ LF @ res_text r1)) config w1
               = (Inr r2, w2)"
    and tech_handoff: "handoff r2 = None"
    and fin: "invoke finance_agent
                (question @ LF @ LF @ ''Follow-up directive: needs budget sign-off'')
                (Some (opt_name (options hr_agent) @ '':'' @ LF @ res_text r1 @ LF @ LF @
                       opt_name (options tech_agent) @ '':'' @ LF @ res_text r2)) config w2
              = (Inr r3, w3)"
    and fin_handoff: "handoff r3 = None"
  shows "route router question config w =
           (Inr \<lparr>classification = cl,
                 turns = [\<lparr>intentTried = Hr, response = r1\<rparr>,
                          \<lparr>intentTried = Tech, response = r2\<rparr>,
                          \<lparr>intentTried = Finance, response = r3\<rparr>],
                 unresolvedIntents = []\<rparr>,
            w3)"
proof -
  let ?ags = "agents router"
  let ?s0 = "\<lparr>l_queue = [\<lparr>item_intent = Hr, item_note = None\<rparr>,
                         \<lparr>item_intent = Tech, item_note = None\<rparr>],
              l_visited = {}, l_turns = []\<rparr>"
  let ?s1 = "\<lparr>l_queue = [\<lparr>item_intent = Tech, item_note = None\<rparr>,
                         \<lparr>item_intent = Finance, item_note = Some ''needs budget sign-off''\<rparr>],
              l_visited = {Hr},
              l_turns = [\<lparr>intentTried = Hr, response = r1\<rparr>]\<rparr>"
  let ?s2 = "\<lparr>l_queue = [\<lparr>item_intent = Finance, item_note = Some ''needs budget sign-off''\<rparr>],
              l_visited = {Tech, Hr},
              l_turns = [\<lparr>intentTried = Hr, response = r1\<rparr>,
                         \<lparr>intentTried = Tech, response = r2\<rparr>]\<rparr>"
  let ?s3 = "\<lparr>l_queue = [],
              l_visited = {Finance, Tech, Hr},
              l_turns = [\<lparr>intentTried = Hr, response = r1\<rparr>,
                         \<lparr>intentTried = Tech, response = r2\<rparr>,
                         \<lparr>intentTried = Finance, response = r3\<rparr>]\<rparr>"
  have s0: "initial_state cl = ?s0"
    by (simp add: initial_state_def resolveOrderedIntents_def ints)
  have b0: "loop_body ?ags question config ?s0 w0 = (Inr ?s1, w1)"
    using ags hr hr_handoff
    by (simp add: loop_body_def Let_def history_of_def history_arg_of_def taskDirective_of_def)
  have b1: "loop_body ?ags question config ?s1 w1 = (Inr ?s2, w2)"
    using ags tech tech_handoff
    by (simp add: loop_body_def Let_def history_of_def history_arg_of_def taskDirective_of_def)
  have b2: "loop_body ?ags question config ?s2 w2 = (Inr ?s3, w3)"
    using ags fin fin_handoff
    by (simp add: loop_body_def Let_def history_of_def history_arg_of_def taskDirective_of_def)
  have "route_loop ?ags question config ?s0 w0 = route_loop ?ags question config ?s1 w1"
    using _ b0 by (rule route_loop_step) (simp add: loop_cond_def)
  also have "\<dots> = route_loop ?ags question config ?s2 w2"
    using _ b1 by (rule route_loop_step) (simp add: loop_cond_def)
  also have "\<dots> = route_loop ?ags question config ?s3 w3"
    using _ b2 by (rule route_loop_step) (simp add: loop_cond_def)
  also have "\<dots> = (Inr ?s3, w3)"
    by (rule route_loop_stop) (simp add: loop_cond_def)
  finally have "route_loop ?ags question config (initial_state cl) w0 = (Inr ?s3, w3)"
    by (simp only: s0)
  with cl show ?thesis
    by (simp add: route_def)
qed

theorem route_signoff_scenario_witness:
  "invoke (example_agent Finance ''FIN'' (answers ''a3'' None))
     (''q'' @ LF @ LF @ ''Follow-up directive: needs budget sign-off'')
     (Some (''HR:'' @ LF @ ''a1'' @ LF @ LF @ ''IT:'' @ LF @ ''a2'')) ()
     [''classify'', ''HR: q'', ''IT: q''] =
     (Inr \<lparr>res_text = ''a3'', sources = [], handoff = None\<rparr>,
      [''classify'', ''HR: q'', ''IT: q'',
       ''FIN: q'' @ LF @ LF @ ''Follow-up directive: needs budget sign-off'']) \<and>
   route signoff_router ''q'' () [] =
     (Inr \<lparr>classification = \<lparr>intents = [Hr, Tech], confidence = 1, reasoning = ''scripted result''\<rparr>,
           turns =
             [\<lparr>intentTried = Hr,
               response = \<lparr>res_text = ''a1'', sources = [],
                           handoff = Some \<lparr>h_intent = Finance, h_reason = ''budget'',
                                            h_context = Some ''needs budget sign-off''\<rparr>\<rparr>\<rparr>,
              \<lparr>intentTried = Tech,
               response = \<lparr>res_text = ''a2'', sources = [], handoff = None\<rparr>\<rparr>,
              \<lparr>intentTried = Finance,
               response = \<lparr>res_text = ''a3'', sources = [], handoff = None\<rparr>\<rparr>],
           unresolvedIntents = []\<rparr>,
      [''classify'', ''HR: q'', ''IT: q'',
       ''FIN: q'' @ LF @ LF @ ''Follow-up directive: needs budget sign-off''])"
proof -
  let ?cl = "\<lparr>intents = [Hr, Tech], confidence = 1, reasoning = ''scripted result''\<rparr>"
  let ?hr = "example_agent Hr ''HR''
               (answers ''a1'' (hands_off Finance ''budget'' (Some ''needs budget sign-off'')))"
  let ?tech = "example_agent Tech ''IT'' (answers ''a2'' None)"
  let ?fin = "example_agent Finance ''FIN'' (answers ''a3'' None)"
  let ?r1 = "\<lparr>res_text = ''a1'', sources = [],
              handoff = Some \<lparr>h_intent = Finance, h_reason = ''budget'',
                               h_context = Some ''needs budget sign-off''\<rparr>\<rparr>"
  let ?r2 = "\<lparr>res_text = ''a2'', sources = [], handoff = None\<rparr>"
  let ?r3 = "\<lparr>res_text = ''a3'', sources = [], handoff = None\<rparr>"
  have c: "classify (orchestrator signoff_router) ''q'' () [] = (Inr ?cl, [''classify''])"
    by (simp add: signoff_router_def example_defs classify_def)
  have a: "agents signoff_router Hr = Some ?hr" "agents signoff_router Tech = Some ?tech"
    "agents signoff_router Finance = Some ?fin"
    by (simp_all add: signoff_router_def example_router_def)
  have i1: "invoke ?hr ''q'' (Some ''No prior agent responses.'') () [''classify'']
              = (Inr ?r1, [''classify'', ''HR: q''])"
    by (simp add: example_defs invoke_def formatContext_def extractAnswer_def)
  have i2: "invoke ?tech ''q'' (Some (opt_name (options ?hr) @ '':'' @ LF @ res_text ?r1)) ()
              [''classify'', ''HR: q''] = (Inr ?r2, [''classify'', ''HR: q'', ''IT: q''])"
    by (simp add: example_defs invoke_def formatContext_def extractAnswer_def)
  have i3: "invoke ?fin (''q'' @ LF @ LF @ ''Follow-up directive: needs budget sign-off'')
              (Some (opt_name (options ?hr) @ '':'' @ LF @ res_text ?r1 @ LF @ LF @
                     opt_name (options ?tech) @ '':'' @ LF @ res_text ?r2)) ()
              [''classify'', ''HR: q'', ''IT: q'']
            = (Inr ?r3, [''classify'', ''HR: q'', ''IT: q'',
                 ''FIN: q'' @ LF @ LF @ ''Follow-up directive: needs budget sign-off''])"
    by (simp add: example_defs invoke_def formatContext_def extractAnswer_def)
  have "route signoff_router ''q'' () [] =
          (Inr \<lparr>classification = ?cl,
                turns = [\<lparr>intentTried = Hr, response = ?r1\<rparr>,
                         \<lparr>intentTried = Tech, response = ?r2\<rparr>,
                         \<lparr>intentTried = Finance, response = ?r3\<rparr>],
                unresolvedIntents = []\<rparr>,
           [''classify'', ''HR: q'', ''IT: q'',
            ''FIN: q'' @ LF @ LF @ ''Follow-up directive: needs budget sign-off''])"
    by (rule route_signoff_scenario [OF c _ a i1 _ i2 _ i3]) simp_all
  moreover from i3 have "invoke ?fin (''q'' @ LF @ LF @ ''Follow-up directive: needs budget sign-off'')
     (Some (''HR:'' @ LF @ ''a1'' @ LF @ LF @ ''IT:'' @ LF @ ''a2'')) ()
     [''classify'', ''HR: q'', ''IT: q''] =
     (Inr ?r3, [''classify'', ''HR: q'', ''IT: q'',
       ''FIN: q'' @ LF @ LF @ ''Follow-up directive: needs budget sign-off''])"
    by (simp add: example_agent_def)
  ultimately show ?thesis
    by blast
qed

section \<open>Handoff cycles\<close>

lemma route_turns_inv:
  assumes "route router question config w = (Inr r, w')"
  shows "distinct (map intentTried (turns r))"
    and "Unknown \<notin> set (map intentTried (turns r))"
proof -
  from assms obtain cl w1 s where
    l: "route_loop (agents router) question config (initial_state cl) w1 = (Inr s, w')" and
    r: "r = \<lparr>classification = cl, turns = l_turns s,
             unresolvedIntents =
               filter (\<lambda>intent. intent \<notin> l_visited s) (map item_intent (l_queue s))\<rparr>"
    by (rule route_InrE)
  have i: "loop_inv s"
    using initial_state_inv l by (rule route_loop_inv)
  from r loop_inv_turns(1) [OF i] show "distinct (map intentTried (turns r))"
    by simp
  from r loop_inv_turns(2) [OF i] show "Unknown \<notin> set (map intentTried (turns r))"
    by simp
qed

lemma distinct_count_le_card:
  assumes "finite S" and "distinct (map f xs)"
  shows "length (filter (\<lambda>x. f x \<in> S) xs) \<le> card S"
proof -
  let ?ys = "filter (\<lambda>x. f x \<in> S) xs"
  from assms(2) have d: "distinct (map f ?ys)"
    by (rule distinct_map_filter)
  have "set (map f ?ys) \<subseteq> S"
    by auto
  with assms(1) have "card (set (map f ?ys)) \<le> card S"
    by (intro card_mono)
  moreover from d have "card (set (map f ?ys)) = length (map f ?ys)"
    by (rule distinct_card)
  ultimately have "length (map f ?ys) \<le> card S"
    by (simp only:)
  then show ?thesis
    by (simp only: length_map)
qed

text \<open>
  Claim C6. When the agent for \<open>A\<close> always hands off to \<open>B\<close> and the agent for
  \<open>B\<close> always hands off to \<open>A\<close>, the call to \<^verbatim>\<open>route\<close> returns (the loop is
  a total function: every iteration lowers \<open>loop_measure\<close>), and a result it returns
  has at most 2 turns for \<open>A\<close> and \<open>B\<close> together, at most one for each.
\<close>

theorem handoff_cycle_terminates:
  assumes "agents router A = Some agent_a" and "agents router B = Some agent_b"
    and "\<forall>task history_arg cfg v r v'.
           invoke agent_a task history_arg cfg v = (Inr r, v') \<longrightarrow>
           map_option h_intent (handoff r) = Some B"
    and "\<forall>task history_arg cfg v r v'.
           invoke agent_b task history_arg cfg v = (Inr r, v') \<longrightarrow>
           map_option h_intent (handoff r) = Some A"
  shows "\<exists>res w'. route router question config w = (res, w') \<and>
           (\<forall>r. res = Inr r \<longrightarrow>
              length (filter (\<lambda>t. intentTried t \<in> {A, B}) (turns r)) \<le> 2 \<and>
              length (filter (\<lambda>t. intentTried t \<in> {A}) (turns r)) \<le> 1 \<and>
              length (filter (\<lambda>t. intentTried t \<in> {B}) (turns r)) \<le> 1)"
proof -
  obtain res w' where run: "route router question config w = (res, w')"
    by (cases "route router question config w")
  have "length (filter (\<lambda>t. intentTried t \<in> {A, B}) (turns r)) \<le> 2 \<and>
        length (filter (\<lambda>t. intentTried t \<in> {A}) (turns r)) \<le> 1 \<and>
        length (filter (\<lambda>t. intentTried t \<in> {B}) (turns r)) \<le> 1"
    if "res = Inr r" for r
  proof -
    from run that have d: "distinct (map intentTried (turns r))"
      by (intro route_turns_inv(1)) simp
    have "length (filter (\<lambda>t. intentTried t \<in> {A, B}) (turns r)) \<le> card {A, B}"
      using _ d by (rule distinct_count_le_card) simp
    also have "\<dots> \<le> 2"
      by (simp add: card_insert_if)
    finally have ab: "length (filter (\<lambda>t. intentTried t \<in> {A, B}) (turns r)) \<le> 2" .
    have "length (filter (\<lambda>t. intentTried t \<in> {A}) (turns r)) \<le> card {A}"
      using _ d by (rule distinct_count_le_card) simp
    then have a: "length (filter (\<lambda>t. intentTried t \<in> {A}) (turns r)) \<le> 1"
      by simp
    have "length (filter (\<lambda>t. intentTried t \<in> {B}) (turns r)) \<le> card {B}"
      using _ d by (rule distinct_count_le_card) simp
    then have b: "length (filter (\<lambda>t. intentTried t \<in> {B}) (turns r)) \<le> 1"
      by simp
    from ab a b show ?thesis
      by (intro conjI)
  qed
  with run show ?thesis
    by blast
qed

theorem handoff_cycle_terminates_witness:
  "route ping_pong_router ''q'' () [] =
     (Inr \<lparr>classification = \<lparr>intents = [Hr], confidence = 1, reasoning = ''scripted result''\<rparr>,
           turns =
             [\<lparr>intentTried = Hr,
               response = \<lparr>res_text = ''a1'', sources = [],
                           handoff = Some \<lparr>h_intent = Tech, h_reason = ''r1'', h_context = None\<rparr>\<rparr>\<rparr>,
              \<lparr>intentTried = Tech,
               response = \<lparr>res_text = ''a2'', sources = [],
                           handoff = Some \<lparr>h_intent = Hr, h_reason = ''r2'', h_context = None\<rparr>\<rparr>\<rparr>],
           unresolvedIntents = []\<rparr>,
      [''classify'', ''HR: q'', ''IT: q'' @ LF @ LF @ ''Follow-up directive: r1'']) \<and>
   length (filter (\<lambda>t. intentTried t \<in> {Hr, Tech})
     (turns (projr (fst (route ping_pong_router ''q'' () []))))) \<le> 2"
proof -
  let ?hr = "example_agent Hr ''HR'' (answers ''a1'' (hands_off Tech ''r1'' None))"
  let ?tech = "example_agent Tech ''IT'' (answers ''a2'' (hands_off Hr ''r2'' None))"
  let ?r = "\<lparr>classification = \<lparr>intents = [Hr], confidence = 1, reasoning = ''scripted result''\<rparr>,
           turns =
             [\<lparr>intentTried = Hr,
               response = \<lparr>res_text = ''a1'', sources = [],
                           handoff = Some \<lparr>h_intent = Tech, h_reason = ''r1'', h_context = None\<rparr>\<rparr>\<rparr>,
              \<lparr>intentTried = Tech,
               response = \<lparr>res_text = ''a2'', sources = [],
                           handoff = Some \<lparr>h_intent = Hr, h_reason = ''r2'', h_context = None\<rparr>\<rparr>\<rparr>],
           unresolvedIntents = []\<rparr>"
  have run: "route ping_pong_router ''q'' () [] =
               (Inr ?r, [''classify'', ''HR: q'', ''IT: q'' @ LF @ LF @ ''Follow-up directive: r1''])"
    by (simp add: ping_pong_router_def example_defs route_eval)
  have a: "agents ping_pong_router Hr = Some ?hr" and b: "agents ping_pong_router Tech = Some ?tech"
    by (simp_all add: ping_pong_router_def example_router_def)
  have ha: "\<forall>task history_arg cfg v r v'.
              invoke ?hr task history_arg cfg v = (Inr r, v') \<longrightarrow>
              map_option h_intent (handoff r) = Some Tech"
    by (auto simp: example_defs invoke_def formatContext_def extractAnswer_def)
  have hb: "\<forall>task history_arg cfg v r v'.
              invoke ?tech task history_arg cfg v = (Inr r, v') \<longrightarrow>
              map_option h_intent (handoff r) = Some Hr"
    by (auto simp: example_defs invoke_def formatContext_def extractAnswer_def)
  from handoff_cycle_terminates [OF a b ha hb, of "''q''" "()" "[]"] run
  have "length (filter (\<lambda>t. intentTried t \<in> {Hr, Tech}) (turns ?r)) \<le> 2"
    by auto
  with run show ?thesis
    by simp
qed

section \<open>A chain of six departments\<close>

lemma rt_route_loop_stop:
  "\<not> rt_loop_cond s \<Longrightarrow> rt_route_loop ags question config s w = (Inr s, w)"
  by (subst rt_route_loop.simps) simp

lemma rt_route_loop_step:
  "rt_loop_cond s \<Longrightarrow> rt_loop_body ags question config s w = (Inr s1, w1) \<Longrightarrow>
     rt_route_loop ags question config s w = rt_route_loop ags question config s1 w1"
  by (subst rt_route_loop.simps) simp




section \<open>The typed router is the router at run time\<close>

lemma intent_string_eq [simp]: "intent_string i = intent_string j \<longleftrightarrow> i = j"
  by (cases i; cases j) simp_all

lemma intent_string_unknown [simp]: "intent_string i = ''unknown'' \<longleftrightarrow> i = Unknown"
  by (cases i) simp_all

lemma intent_string_image [simp]: "intent_string i \<in> intent_string ` V \<longleftrightarrow> i \<in> V"
  by auto

lemma rt_of_agents_lookup:
  "i \<noteq> Unknown \<Longrightarrow> rt_of_agents ags (intent_string i) = map_option rt_of_agent (ags i)"
  by (cases i) (simp_all add: rt_of_agents_def)

lemma rt_resolve_loop_typed:
  "rt_resolve_loop (map intent_string unique) (map intent_string xs)
     = map intent_string (resolve_loop unique xs)"
proof (induction xs arbitrary: unique)
  case Nil
  show ?case by simp
next
  case (Cons x xs)
  have n: "(if intent_string x = ''hr'' \<or> intent_string x = ''tech'' \<or> intent_string x = ''finance''
            then intent_string x else ''unknown'') = intent_string x"
    by (cases x) simp_all
  have m: "intent_string x \<in> set (map intent_string unique) \<longleftrightarrow> x \<in> set unique"
    by auto
  show ?case
  proof (cases "x \<in> set unique")
    case True
    with Cons.IH [of unique] show ?thesis
      by (simp add: n m resolve_loop_step Let_def del: resolve_loop.simps set_map)
  next
    case False
    with Cons.IH [of "unique @ [x]"] show ?thesis
      by (simp add: n m resolve_loop_step Let_def del: resolve_loop.simps set_map)
  qed
qed

lemma rt_history_of_typed:
  "rt_history_of (rt_of_agents ags) (map rt_of_turn ts) = history_of ags ts"
proof -
  have "(if rt_intentTried (rt_of_turn t) = ''unknown'' then ''Unknown intent''
         else (case rt_of_agents ags (rt_intentTried (rt_of_turn t)) of
                 Some a \<Rightarrow> rt_name a
               | None \<Rightarrow> rt_intentTried (rt_of_turn t))) @
          '':'' @ LF @ rt_text (rt_response (rt_of_turn t))
        = (if intentTried t = Unknown then ''Unknown intent''
           else (case ags (intentTried t) of
                   Some a \<Rightarrow> opt_name (options a)
                 | None \<Rightarrow> intent_string (intentTried t))) @
          '':'' @ LF @ res_text (response t)" for t
    by (cases "intentTried t = Unknown")
       (simp_all add: rt_of_turn_def rt_of_result_def rt_of_agents_lookup rt_of_agent_def
          split: option.splits)
  then show ?thesis
    unfolding rt_history_of_def history_of_def Let_def
    by (simp add: comp_def)
qed

lemma rt_loop_cond_typed: "rt_loop_cond (rt_of_state s) = loop_cond s"
  by (simp add: rt_loop_cond_def loop_cond_def rt_of_state_def)

lemma rt_loop_body_typed:
  "rt_loop_body (rt_of_agents ags) question config (rt_of_state s) w =
     (case loop_body ags question config s w of
        (Inl e, w1) \<Rightarrow> (Inl e, w1)
      | (Inr s1, w1) \<Rightarrow> (Inr (rt_of_state s1), w1))"
proof (cases "l_queue s")
  case Nil
  then show ?thesis
    by (simp add: rt_loop_body_def loop_body_def rt_of_state_def)
next
  case (Cons item rest)
  show ?thesis
  proof (cases "item_intent item = Unknown \<or> item_intent item \<in> l_visited s")
    case True
    with Cons show ?thesis
      by (auto simp: rt_loop_body_def loop_body_def rt_of_state_def rt_of_item_def Let_def)
  next
    case False
    then have u: "item_intent item \<noteq> Unknown" and v: "item_intent item \<notin> l_visited s"
      by simp_all
    show ?thesis
    proof (cases "ags (item_intent item)")
      case None
      with Cons u v show ?thesis
        by (simp add: rt_loop_body_def loop_body_def rt_of_state_def rt_of_item_def Let_def
              rt_of_agents_lookup)
    next
      case (Some agent)
      let ?call = "invoke agent (taskDirective_of question (item_note item))
                     (Some (history_arg_of (history_of ags (l_turns s)))) config w"
      have h: "rt_history_of (rt_of_agents ags) (rt_turns_so_far (rt_of_state s))
                 = history_of ags (l_turns s)"
        by (simp add: rt_of_state_def rt_history_of_typed)
      show ?thesis
      proof (cases ?call)
        case (Pair x w1)
        show ?thesis
        proof (cases x)
          case (Inl e)
          with Cons u v Some Pair h show ?thesis
            by (simp add: rt_loop_body_def loop_body_def rt_of_state_def rt_of_item_def Let_def
                  rt_of_agents_lookup rt_of_agent_def)
        next
          case (Inr resp)
          with Cons u v Some Pair h show ?thesis
            by (cases "handoff resp")
               (auto simp: rt_loop_body_def loop_body_def rt_of_state_def rt_of_item_def Let_def
                  rt_of_agents_lookup rt_of_agent_def rt_of_turn_def rt_of_result_def
                  rt_of_handoff_def split: option.splits)
        qed
      qed
    qed
  qed
qed

lemma rt_route_loop_typed:
  "rt_route_loop (rt_of_agents ags) question config (rt_of_state s) w =
     (case route_loop ags question config s w of
        (Inl e, w1) \<Rightarrow> (Inl e, w1)
      | (Inr s1, w1) \<Rightarrow> (Inr (rt_of_state s1), w1))"
proof (induction ags question config s w rule: route_loop.induct)
  case (1 ags question config s w)
  show ?case
  proof (cases "loop_cond s")
    case False
    then show ?thesis
      by (simp add: route_loop_stop rt_route_loop_stop rt_loop_cond_typed)
  next
    case True
    then have rc: "rt_loop_cond (rt_of_state s)"
      by (simp add: rt_loop_cond_typed)
    show ?thesis
    proof (cases "loop_body ags question config s w")
      case (Pair x w1)
      show ?thesis
      proof (cases x)
        case (Inl e)
        with Pair have b: "loop_body ags question config s w = (Inl e, w1)"
          by simp
        then have "rt_loop_body (rt_of_agents ags) question config (rt_of_state s) w = (Inl e, w1)"
          by (simp add: rt_loop_body_typed)
        with rc have "rt_route_loop (rt_of_agents ags) question config (rt_of_state s) w = (Inl e, w1)"
          by (subst rt_route_loop.simps) simp
        with True b show ?thesis
          by (simp add: route_loop_fail)
      next
        case (Inr s1)
        with Pair have b: "loop_body ags question config s w = (Inr s1, w1)"
          by simp
        then have "rt_loop_body (rt_of_agents ags) question config (rt_of_state s) w
                     = (Inr (rt_of_state s1), w1)"
          by (simp add: rt_loop_body_typed)
        with rc have "rt_route_loop (rt_of_agents ags) question config (rt_of_state s) w
                        = rt_route_loop (rt_of_agents ags) question config (rt_of_state s1) w1"
          by (rule rt_route_loop_step)
        moreover from True b have "route_loop ags question config s w
                                     = route_loop ags question config s1 w1"
          by (rule route_loop_step)
        ultimately show ?thesis
          using "1.IH" [OF True Pair [symmetric] Inr] by simp
      qed
    qed
  qed
qed

lemma rt_initial_state_typed:
  "rt_initial_state (rt_of_classification cl) = rt_of_state (initial_state cl)"
  using rt_resolve_loop_typed [of "[]" "intents cl"]
  by (simp add: rt_initial_state_def initial_state_def rt_of_state_def rt_of_classification_def
        rt_resolveOrderedIntents_def resolveOrderedIntents_def rt_of_item_def comp_def)

text \<open>
  A call of the typed router is a call of the router at run time: the same error or the
  same result, and the same world.
\<close>

lemma rt_route_typed:
  "rt_route (rt_of_router router) question config w =
     (case route router question config w of
        (Inl e, w') \<Rightarrow> (Inl e, w')
      | (Inr r, w') \<Rightarrow> (Inr (rt_of_route_result r), w'))"
proof (cases "classify (orchestrator router) question config w")
  case (Pair x w0)
  show ?thesis
  proof (cases x)
    case (Inl e)
    with Pair show ?thesis
      by (simp add: rt_route_def route_def rt_of_router_def)
  next
    case (Inr cl)
    show ?thesis
    proof (cases "route_loop (agents router) question config (initial_state cl) w0")
      case loop: (Pair y w1)
      show ?thesis
      proof (cases y)
        case (Inl e)
        with Pair Inr loop show ?thesis
          by (simp add: rt_route_def route_def rt_of_router_def rt_initial_state_typed
                rt_route_loop_typed)
      next
        case inr: (Inr s)
        have "filter (\<lambda>intent. intent \<notin> intent_string ` l_visited s)
                (map rt_item_intent (map rt_of_item (l_queue s)))
              = map intent_string
                  (filter (\<lambda>intent. intent \<notin> l_visited s) (map item_intent (l_queue s)))"
          by (induction "l_queue s" arbitrary: s) (auto simp: rt_of_item_def filter_map comp_def)
        moreover from loop inr
        have "rt_route_loop (rt_of_agents (agents router)) question config
                (rt_initial_state (rt_of_classification cl)) w0 = (Inr (rt_of_state s), w1)"
          by (simp add: rt_initial_state_typed rt_route_loop_typed)
        ultimately show ?thesis
          using Pair Inr loop inr
          by (simp add: rt_route_def route_def rt_of_router_def rt_of_route_result_def
                rt_of_state_def)
      qed
    qed
  qed
qed

end
